theory Spec2Isabelle
  imports Complex_Main "HOL-Library.Char_ord" "HOL-Library.List_Lexorder"
begin

section \<open>Commands and network messages\<close>

text \<open>
  \<^verbatim>\<open>Point2D\<close> is a pair of \<^verbatim>\<open>Decimal\<close> values. \<^verbatim>\<open>Decimal\<close> comes from the
  library decimal.js, which is a dependency and not part of the sources: the type of decimal
  values is the type parameter \<open>'d\<close> of everything below, and the decimal operations that
  \<^verbatim>\<open>Unit.update\<close> calls are passed to it explicitly.
\<close>

record 'd point2d =
  x :: 'd
  y :: 'd

text \<open>
  \<^verbatim>\<open>Command = NoopCommand | MoveCommand\<close>: a Noop carries the issuing player id, a Move
  the player id, the entity id and the target point.
\<close>

datatype 'd command =
    Noop nat
  | Move nat nat "'d point2d"

text \<open>
  The third parameter of \<^verbatim>\<open>addCommandsForPlayer\<close> has type \<^verbatim>\<open>Command | Command[]\<close>.
\<close>

datatype 'd payload =
    Single "'d command"
  | Array "'d command list"

text \<open>
  A \<^verbatim>\<open>NetworkMessage\<close>. The object \<^verbatim>\<open>commands\<close> is kept as the list of its properties
  in insertion order, each key once; \<^verbatim>\<open>acks\<close> is an array.
\<close>

record 'd network_message =
  msg_playerId :: nat
  msg_commands :: "(int \<times> 'd command list) list"
  msg_acks :: "int list"

section \<open>The command manager\<close>

text \<open>
  \<^verbatim>\<open>TickCommandsMap\<close> is an object of objects: tick to player id to command list. Only
  lookups, assignments, \<^verbatim>\<open>delete\<close> and the number of properties of an inner object are
  used, so both levels are maps. Ticks are integers (the key
  \<^verbatim>\<open>_tick - _commandDelay - 1\<close> is negative at the start), player ids are naturals.

  \<^verbatim>\<open>Acks\<close> maps a player id to a JavaScript \<^verbatim>\<open>Set\<close> of ticks. A \<^verbatim>\<open>Set\<close> iterates in
  insertion order and holds each value once: it is a list, with \<open>set_add\<close> and
  \<open>set_delete\<close> below.
\<close>

type_synonym 'd tick_commands = "nat \<rightharpoonup> 'd command list"
type_synonym 'd tick_commands_map = "int \<rightharpoonup> 'd tick_commands"
type_synonym acks = "nat \<rightharpoonup> int list"

definition set_add :: "int \<Rightarrow> int list \<Rightarrow> int list" where
  "set_add t ts = (if t \<in> set ts then ts else ts @ [t])"

definition set_delete :: "int \<Rightarrow> int list \<Rightarrow> int list" where
  "set_delete t ts = filter (\<lambda>u. u \<noteq> t) ts"

text \<open>
  The fields of \<^verbatim>\<open>CommandManager\<close> (the socket apart: what is sent is returned by the
  functions that send). \<open>receiving\<close> records that the task started by
  \<^verbatim>\<open>startReceivingCommands\<close> is still running: an exception inside its loop ends it.
\<close>

record 'd command_manager =
  sortedPlayerIds :: "nat list"
  commandDelay :: nat
  playerId :: nat
  otherPlayerIds :: "nat list"
  commandQueue :: "'d command list"
  tickCommandsMap :: "'d tick_commands_map"
  acksToSend :: acks
  pendingAcks :: acks
  tick :: int
  receiving :: bool

subsection \<open>Storing and reading commands\<close>

text \<open>
  \<^verbatim>\<open>Array.isArray(commands) ? commands.length === 0 : !commands\<close>: an empty array is
  discarded; a single command is an object, which is never falsy.
\<close>

fun payload_is_empty :: "'d payload \<Rightarrow> bool" where
  "payload_is_empty (Array cs) = (cs = [])"
| "payload_is_empty (Single c) = False"

fun payload_list :: "'d payload \<Rightarrow> 'd command list" where
  "payload_list (Array cs) = cs"
| "payload_list (Single c) = [c]"

definition addCommandsForPlayer ::
  "int \<Rightarrow> nat \<Rightarrow> 'd payload \<Rightarrow> 'd tick_commands_map \<Rightarrow> 'd tick_commands_map" where
  "addCommandsForPlayer t p commands m =
     (if payload_is_empty commands then m
      else
        let tickCommands = (case m t of None \<Rightarrow> Map.empty | Some tc \<Rightarrow> tc)
        in (case tickCommands p of
              None \<Rightarrow> m(t \<mapsto> tickCommands(p \<mapsto> payload_list commands))
            | Some _ \<Rightarrow> m(t \<mapsto> tickCommands)))"

definition getCommandsForPlayer :: "'d tick_commands_map \<Rightarrow> int \<Rightarrow> nat \<Rightarrow> 'd command list" where
  "getCommandsForPlayer m t p =
     (case m t of
        None \<Rightarrow> []
      | Some tickCommands \<Rightarrow> (case tickCommands p of None \<Rightarrow> [] | Some cs \<Rightarrow> cs))"

subsection \<open>Construction\<close>

text \<open>
  \<^verbatim>\<open>[playerId, ...otherPlayerIds].sort()\<close> is called without a comparison function:
  JavaScript then compares the elements as strings, by code units, and the order on
  strings is the lexicographic one, a proper prefix first. The string of a natural number
  below \<open>10^21\<close> is its decimal numeral, which is what \<open>js_to_string\<close> gives. From
  \<open>10^21\<close> on JavaScript writes a number with an exponent (\<^verbatim>\<open>1e+21\<close>) and
  \<open>js_to_string\<close> is not its string: what is stated below on the order of the sorted ids
  is stated for ids below \<open>10^21\<close>; the set and the number of the sorted ids do not depend
  on the strings.
\<close>

fun digit_char :: "nat \<Rightarrow> char" where
  "digit_char n = char_of (48 + n)"

fun js_to_string :: "nat \<Rightarrow> string" where
  "js_to_string n =
     (if n < 10 then [digit_char n] else js_to_string (n div 10) @ [digit_char (n mod 10)])"

declare js_to_string.simps [simp del]

definition js_sort :: "nat list \<Rightarrow> nat list" where
  "js_sort ids = sort_key js_to_string ids"

text \<open>
  \<^verbatim>\<open>initTickCommandsMap\<close>: for the ticks \<open>0 .. commandDelay - 1\<close>, a Noop of every player.
\<close>

definition init_tick_commands :: "nat list \<Rightarrow> 'd tick_commands" where
  "init_tick_commands ids = fold (\<lambda>p tc. tc(p \<mapsto> [Noop p])) ids Map.empty"

definition initTickCommandsMap :: "nat \<Rightarrow> nat list \<Rightarrow> 'd tick_commands_map \<Rightarrow> 'd tick_commands_map" where
  "initTickCommandsMap delay ids m =
     fold (\<lambda>t m'. m'(int t \<mapsto> init_tick_commands ids)) [0..<delay] m"

definition init_acks :: "nat list \<Rightarrow> acks" where
  "init_acks ids = fold (\<lambda>p a. a(p \<mapsto> [])) ids Map.empty"

definition constructor :: "nat \<Rightarrow> nat list \<Rightarrow> nat \<Rightarrow> int \<Rightarrow> 'd command_manager" where
  "constructor pid others delay t =
     \<lparr> sortedPlayerIds = js_sort (pid # others),
       commandDelay = delay,
       playerId = pid,
       otherPlayerIds = others,
       commandQueue = [],
       tickCommandsMap = initTickCommandsMap delay (js_sort (pid # others)) Map.empty,
       acksToSend = init_acks others,
       pendingAcks = init_acks others,
       tick = t,
       receiving = True \<rparr>"

subsection \<open>Scheduling and sending\<close>

definition enqueueCommand :: "'d command \<Rightarrow> 'd command_manager \<Rightarrow> 'd command_manager" where
  "enqueueCommand c s = s\<lparr>commandQueue := commandQueue s @ [c]\<rparr>"

definition scheduleEnqueuedCommands :: "int \<Rightarrow> 'd command_manager \<Rightarrow> 'd command_manager" where
  "scheduleEnqueuedCommands t s =
     s\<lparr>tickCommandsMap :=
         addCommandsForPlayer t (playerId s)
           (Array (if length (commandQueue s) > 0 then commandQueue s else [Noop (playerId s)]))
           (tickCommandsMap s),
       commandQueue := []\<rparr>"

text \<open>
  Assignment to a property of an object: an existing key keeps its place, a new key comes
  last. \<^verbatim>\<open>Object.entries\<close> lists the keys that are array indices (the non-negative
  integers) in ascending order, then the others in insertion order.
\<close>

fun obj_assign :: "int \<Rightarrow> 'v \<Rightarrow> (int \<times> 'v) list \<Rightarrow> (int \<times> 'v) list" where
  "obj_assign k v [] = [(k, v)]"
| "obj_assign k v (e # es) = (if fst e = k then (k, v) # es else e # obj_assign k v es)"

definition object_entries :: "(int \<times> 'v) list \<Rightarrow> (int \<times> 'v) list" where
  "object_entries al =
     sort_key fst (filter (\<lambda>e. 0 \<le> fst e) al) @ filter (\<lambda>e. fst e < 0) al"

text \<open>
  \<^verbatim>\<open>sendCommands\<close> is an \<^verbatim>\<open>async\<close> function that nobody awaits and that has no
  \<^verbatim>\<open>await\<close> inside: it runs to its end when called, and an exception in it (an ack set
  that is \<^verbatim>\<open>undefined\<close>) only ends it, with what was done before kept. It returns the
  messages handed to \<^verbatim>\<open>_socket.send\<close>, each with its target, in order.
\<close>

fun sendCommands_loop ::
  "int \<Rightarrow> 'd command list \<Rightarrow> nat list \<Rightarrow> 'd command_manager \<Rightarrow>
   (nat \<times> 'd network_message) list \<times> 'd command_manager" where
  "sendCommands_loop t tickCommands [] s = ([], s)"
| "sendCommands_loop t tickCommands (p # ps) s =
     (case pendingAcks s p of
        None \<Rightarrow> ([], s)
      | Some pending \<Rightarrow>
          let cmds = fold (\<lambda>tickPendingAck.
                       obj_assign tickPendingAck
                         (getCommandsForPlayer (tickCommandsMap s) tickPendingAck (playerId s)))
                     pending [(t, tickCommands)];
              s1 = s\<lparr>pendingAcks := (pendingAcks s)(p \<mapsto> set_add t pending)\<rparr>
          in (case acksToSend s1 p of
                None \<Rightarrow> ([], s1)
              | Some toSend \<Rightarrow>
                  let networkMessage =
                        \<lparr> msg_playerId = playerId s, msg_commands = cmds, msg_acks = toSend \<rparr>;
                      s2 = s1\<lparr>acksToSend := (acksToSend s1)(p \<mapsto> [])\<rparr>;
                      rest = sendCommands_loop t tickCommands ps s2
                  in ((p, networkMessage) # fst rest, snd rest)))"

definition sendCommands ::
  "int \<Rightarrow> 'd command_manager \<Rightarrow> (nat \<times> 'd network_message) list \<times> 'd command_manager" where
  "sendCommands t s =
     sendCommands_loop t (getCommandsForPlayer (tickCommandsMap s) t (playerId s))
       (otherPlayerIds s) s"

definition nextTick ::
  "'d command_manager \<Rightarrow> (nat \<times> 'd network_message) list \<times> 'd command_manager" where
  "nextTick s =
     (let s1 = scheduleEnqueuedCommands (tick s + int (commandDelay s)) s;
          sent = sendCommands (tick s1 + int (commandDelay s1)) s1;
          s2 = snd sent
      in (fst sent,
          s2\<lparr>tickCommandsMap := (tickCommandsMap s2)(tick s2 - int (commandDelay s2) - 1 := None),
             tick := tick s2 + 1\<rparr>))"

subsection \<open>Readiness and reading a tick\<close>

definition isTickReady :: "'d command_manager \<Rightarrow> int \<Rightarrow> bool" where
  "isTickReady s t =
     (case tickCommandsMap s t of
        None \<Rightarrow> False
      | Some tickCommands \<Rightarrow> card (dom tickCommands) = length (sortedPlayerIds s))"

definition getAllCommands :: "'d command_manager \<Rightarrow> int \<Rightarrow> 'd command list" where
  "getAllCommands s t =
     (case tickCommandsMap s t of
        None \<Rightarrow> []
      | Some tickCommands \<Rightarrow>
          concat (map (\<lambda>p. case tickCommands p of None \<Rightarrow> [] | Some cs \<Rightarrow> cs)
                      (sortedPlayerIds s)))"

subsection \<open>The receive task\<close>

text \<open>
  The body of the loop of \<^verbatim>\<open>startReceivingCommands\<close> has no \<^verbatim>\<open>await\<close>: one message
  is processed in one piece. \<^verbatim>\<open>this._acksToSend[msg.playerId].add\<close> and
  \<^verbatim>\<open>this._pendingAcks[msg.playerId].delete\<close> throw a TypeError when the sender has no
  ack set; the exception ends the task, after the commands of the entry at hand were stored.
\<close>

fun receive_entries ::
  "nat \<Rightarrow> (int \<times> 'd command list) list \<Rightarrow> 'd command_manager \<Rightarrow> 'd command_manager" where
  "receive_entries p [] s = s"
| "receive_entries p (e # es) s =
     (let s1 = (if fst e \<ge> tick s
                then s\<lparr>tickCommandsMap :=
                         addCommandsForPlayer (fst e) p (Array (snd e)) (tickCommandsMap s)\<rparr>
                else s)
      in (case acksToSend s1 p of
            None \<Rightarrow> s1\<lparr>receiving := False\<rparr>
          | Some toSend \<Rightarrow>
              receive_entries p es (s1\<lparr>acksToSend := (acksToSend s1)(p \<mapsto> set_add (fst e) toSend)\<rparr>)))"

fun receive_acks :: "nat \<Rightarrow> int list \<Rightarrow> 'd command_manager \<Rightarrow> 'd command_manager" where
  "receive_acks p [] s = s"
| "receive_acks p (t # ts) s =
     (case pendingAcks s p of
        None \<Rightarrow> s\<lparr>receiving := False\<rparr>
      | Some pending \<Rightarrow>
          receive_acks p ts (s\<lparr>pendingAcks := (pendingAcks s)(p \<mapsto> set_delete t pending)\<rparr>))"

definition receive :: "'d command_manager \<Rightarrow> 'd network_message \<Rightarrow> 'd command_manager" where
  "receive s msg =
     (if \<not> receiving s then s
      else
        let s1 = receive_entries (msg_playerId msg) (object_entries (msg_commands msg)) s
        in if receiving s1 then receive_acks (msg_playerId msg) (msg_acks msg) s1 else s1)"

subsection \<open>Waiting for a tick\<close>

text \<open>
  \<^verbatim>\<open>waitForTick\<close> tests \<^verbatim>\<open>isTickReady\<close>, sends the commands of tick
  \<^verbatim>\<open>_tick + _commandDelay - 1\<close> again and sleeps, until the test holds. While it sleeps
  the receive task runs: the second argument lists, for each sleep, the messages that
  arrive during it. The result is \<open>None\<close> when the loop is still waiting after the last
  of these sleeps, and otherwise what was sent and the state at the return.
\<close>

fun waitForTick ::
  "int \<Rightarrow> 'd network_message list list \<Rightarrow> 'd command_manager \<Rightarrow>
   ((nat \<times> 'd network_message) list \<times> 'd command_manager) option" where
  "waitForTick t [] s = (if isTickReady s t then Some ([], s) else None)"
| "waitForTick t (arrivals # later) s =
     (if isTickReady s t then Some ([], s)
      else
        let sent = sendCommands (tick s + int (commandDelay s) - 1) s;
            s1 = fold (\<lambda>msg s'. receive s' msg) arrivals (snd sent)
        in map_option (\<lambda>r. (fst sent @ fst r, snd r)) (waitForTick t later s1))"

text \<open>
  The states of a manager: from a start state, by the calls of the game loop
  (\<^verbatim>\<open>enqueueCommand\<close>, \<^verbatim>\<open>nextTick\<close>, the resend of \<^verbatim>\<open>waitForTick\<close>) and by the receive
  task, in any order.
\<close>

inductive reachable :: "'d command_manager \<Rightarrow> 'd command_manager \<Rightarrow> bool"
  for s0 :: "'d command_manager" where
  start: "reachable s0 s0"
| enqueue: "reachable s0 s \<Longrightarrow> reachable s0 (enqueueCommand c s)"
| next_tick: "reachable s0 s \<Longrightarrow> reachable s0 (snd (nextTick s))"
| resend: "reachable s0 s \<Longrightarrow>
    reachable s0 (snd (sendCommands (tick s + int (commandDelay s) - 1) s))"
| received: "reachable s0 s \<Longrightarrow> reachable s0 (receive s msg)"

section \<open>The simulated network\<close>

text \<open>
  \<^verbatim>\<open>SocketOptions\<close>: both fields are optional. A \<^verbatim>\<open>Socket\<close> holds its options and a
  \<^verbatim>\<open>send\<close> that is \<^verbatim>\<open>sendMessage\<close> bound to the player id it was created for.
\<close>

record socket_options =
  opt_delay :: "(rat \<times> rat) option"
  opt_packetLoss :: "rat option"

record socket =
  sock_playerId :: nat
  sock_options :: socket_options

text \<open>
  The inbound side of a socket is the closure variable \<^verbatim>\<open>trigger\<close> and the async
  generator \<^verbatim>\<open>receive\<close>. \<open>trigger_set\<close> says that \<^verbatim>\<open>trigger\<close> holds a resolver (it is
  \<^verbatim>\<open>null\<close> otherwise). An async generator keeps the \<^verbatim>\<open>next()\<close> requests of its consumer
  in a queue: \<open>requests\<close> is the number of those it has not answered yet. \<open>yielded\<close> lists
  the messages it has answered requests with, in order: these are the messages its
  consumer gets. Between two tasks of the event loop the generator is either suspended (at
  its start or at its \<^verbatim>\<open>yield\<close>), with no request waiting and \<^verbatim>\<open>trigger\<close> being
  \<^verbatim>\<open>null\<close>, or at its \<^verbatim>\<open>await\<close>, with a request waiting and the resolver of the awaited
  promise in \<^verbatim>\<open>trigger\<close>.
\<close>

record 'm inbox =
  trigger_set :: bool
  requests :: nat
  yielded :: "'m list"

record 'm network =
  sockets :: "nat \<rightharpoonup> socket"
  inboxes :: "nat \<rightharpoonup> 'm inbox"

datatype error =
    SocketAlreadyExists nat
  | SocketDoesNotExist nat
  | TypeError

definition new_network :: "'m network" where
  "new_network = \<lparr> sockets = Map.empty, inboxes = Map.empty \<rparr>"

text \<open>
  \<^verbatim>\<open>createSocket\<close> returns the socket or throws; the network after the call is the second
  component. The generator is created suspended: its body, which stores the resolver in
  \<^verbatim>\<open>trigger\<close>, first runs when the consumer asks for a message.
\<close>

definition createSocket ::
  "nat \<Rightarrow> socket_options \<Rightarrow> 'm network \<Rightarrow> (error + socket) \<times> 'm network" where
  "createSocket pid options n =
     (case sockets n pid of
        Some _ \<Rightarrow> (Inl (SocketAlreadyExists pid), n)
      | None \<Rightarrow>
          let sock = \<lparr> sock_playerId = pid, sock_options = options \<rparr>
          in (Inr sock,
              n\<lparr>sockets := (sockets n)(pid \<mapsto> sock),
                inboxes :=
                  (inboxes n)(pid \<mapsto> \<lparr> trigger_set = False, requests = 0, yielded = [] \<rparr>)\<rparr>))"

text \<open>
  The consumer asks for the next message: \<^verbatim>\<open>next()\<close> on the generator, which
  \<^verbatim>\<open>for await\<close> calls for its body. The request is queued. A suspended generator is
  resumed by it, at once, and runs up to
  \<^verbatim>\<open>await new Promise((resolve) => (trigger = resolve))\<close>; a generator that is at its
  \<^verbatim>\<open>await\<close> stays there, with the resolver it has stored.
\<close>

definition generator_next :: "nat \<Rightarrow> 'm network \<Rightarrow> 'm network" where
  "generator_next pid n =
     (case inboxes n pid of
        None \<Rightarrow> n
      | Some b \<Rightarrow>
          n\<lparr>inboxes := (inboxes n)(pid \<mapsto> b\<lparr>trigger_set := True, requests := Suc (requests b)\<rparr>)\<rparr>)"

text \<open>
  The generator once the promise it awaits is resolved with a value: \<^verbatim>\<open>yield\<close> answers
  the oldest request with the value. If another request is waiting, the generator runs on,
  around the loop to the next \<^verbatim>\<open>await new Promise(...)\<close>, which stores a new resolver in
  \<^verbatim>\<open>trigger\<close>; otherwise it stays suspended at the \<^verbatim>\<open>yield\<close>.
\<close>

definition generator_resume :: "'m \<Rightarrow> 'm inbox \<Rightarrow> 'm inbox" where
  "generator_resume v b =
     (let b' = b\<lparr>requests := requests b - 1, yielded := yielded b @ [v]\<rparr>
      in if 0 < requests b' then b'\<lparr>trigger_set := True\<rparr> else b')"

text \<open>
  \<^verbatim>\<open>newMessage\<close>: \<^verbatim>\<open>if (trigger) { trigger(value); trigger = null; }\<close>, and nothing
  otherwise. Calling the resolver makes the generator run on. It does so in promise
  reactions, after \<^verbatim>\<open>newMessage\<close> has returned and before the next task of the event
  loop; every call of \<^verbatim>\<open>newMessage\<close> is the continuation of a timer of its own
  (\<^verbatim>\<open>applyNetworkDelay\<close> always goes through \<^verbatim>\<open>setTimeout\<close>), so that no other delivery
  comes between the call of the resolver and the generator's reaction, which is part of
  the step here.
\<close>

definition newMessage :: "'m \<Rightarrow> 'm inbox \<Rightarrow> 'm inbox" where
  "newMessage v b =
     (if trigger_set b then generator_resume v (b\<lparr>trigger_set := False\<rparr>) else b)"

text \<open>
  \<^verbatim>\<open>isPacketLost\<close>, with the two values of \<^verbatim>\<open>Math.random()\<close> as arguments.
\<close>

definition isPacketLost :: "socket \<Rightarrow> socket \<Rightarrow> rat \<Rightarrow> rat \<Rightarrow> bool" where
  "isPacketLost senderSocket receiverSocket r1 r2 =
     (let senderPacketLoss = (case opt_packetLoss (sock_options senderSocket) of
                                None \<Rightarrow> 0 | Some l \<Rightarrow> l);
          receiverPacketLoss = (case opt_packetLoss (sock_options receiverSocket) of
                                  None \<Rightarrow> 0 | Some l \<Rightarrow> l)
      in r1 < senderPacketLoss \<or> r2 < receiverPacketLoss)"

text \<open>
  \<^verbatim>\<open>sendMessage\<close> at the moment its delay has elapsed: the part after
  \<^verbatim>\<open>await this.applyNetworkDelay\<close>, with the check of the receiver's socket that precedes
  it. The sender's socket is read for its options.
\<close>

definition sendMessage ::
  "nat \<Rightarrow> nat \<Rightarrow> 'm \<Rightarrow> rat \<Rightarrow> rat \<Rightarrow> 'm network \<Rightarrow> (error + unit) \<times> 'm network" where
  "sendMessage senderPlayerId receiverPlayerId message r1 r2 n =
     (case sockets n receiverPlayerId of
        None \<Rightarrow> (Inl (SocketDoesNotExist receiverPlayerId), n)
      | Some receiverSocket \<Rightarrow>
          (case sockets n senderPlayerId of
             None \<Rightarrow> (Inl TypeError, n)
           | Some senderSocket \<Rightarrow>
               if isPacketLost senderSocket receiverSocket r1 r2 then (Inr (), n)
               else
                 (case inboxes n receiverPlayerId of
                    None \<Rightarrow> (Inl TypeError, n)
                  | Some b \<Rightarrow>
                      (Inr (), n\<lparr>inboxes := (inboxes n)(receiverPlayerId \<mapsto> newMessage message b)\<rparr>))))"

text \<open>
  The messages the consumer of a player's socket has been given.
\<close>

definition received :: "nat \<Rightarrow> 'm network \<Rightarrow> 'm list" where
  "received pid n = (case inboxes n pid of None \<Rightarrow> [] | Some b \<Rightarrow> yielded b)"

text \<open>
  The consumer written as \<^verbatim>\<open>for await (const message of socket.receive()) { ... }\<close> with
  a body that has no \<^verbatim>\<open>await\<close>, which is how \<^verbatim>\<open>startReceivingCommands\<close> reads the socket
  of the command manager. The loop asks for the first message when it starts (the manager
  starts it in its constructor). When it is given a message, it runs its body and asks for
  the next message in the same chain of promise reactions, that is, before the next
  delivery. \<open>for_await\<close> is the loop after its first request, over the sends to this player
  that reach the end of their delay one after the other; each comes with its sender, its
  message and its two random rolls.
\<close>

fun for_await :: "nat \<Rightarrow> (nat \<times> 'm \<times> rat \<times> rat) list \<Rightarrow> 'm network \<Rightarrow> 'm network" where
  "for_await pid [] n = n"
| "for_await pid ((sender, message, r1, r2) # ds) n =
     (let n1 = snd (sendMessage sender pid message r1 r2 n);
          n2 = (if received pid n1 = received pid n then n1 else generator_next pid n1)
      in for_await pid ds n2)"

text \<open>Inputs for the examples: sockets without options, two players, two messages.\<close>

definition no_options :: socket_options where
  "no_options = \<lparr> opt_delay = None, opt_packetLoss = None \<rparr>"

definition two_sockets :: "'m network" where
  "two_sockets = snd (createSocket 2 no_options (snd (createSocket 1 no_options new_network)))"

definition msg_a :: "rat network_message" where
  "msg_a = \<lparr> msg_playerId = 2, msg_commands = [(2, [Noop 2])], msg_acks = [] \<rparr>"

definition msg_b :: "rat network_message" where
  "msg_b = \<lparr> msg_playerId = 2, msg_commands = [(3, [Noop 2])], msg_acks = [2] \<rparr>"

section \<open>Units\<close>

text \<open>
  The operations of \<^verbatim>\<open>Decimal\<close> that \<^verbatim>\<open>Unit.update\<close> calls, as a parameter:
  the conversion \<^verbatim>\<open>Decimal(n)\<close> of a JavaScript number, \<^verbatim>\<open>minus\<close>, \<^verbatim>\<open>plus\<close> (also
  called \<^verbatim>\<open>add\<close>), \<^verbatim>\<open>mul\<close>, \<^verbatim>\<open>div\<close>, \<^verbatim>\<open>Decimal.sqrt\<close> and
  \<^verbatim>\<open>lessThanOrEqualTo\<close>. \<open>'n\<close> is the type of JavaScript numbers.
\<close>

record ('n, 'd) decimal_ops =
  dec_of_number :: "'n \<Rightarrow> 'd"
  dec_minus :: "'d \<Rightarrow> 'd \<Rightarrow> 'd"
  dec_plus :: "'d \<Rightarrow> 'd \<Rightarrow> 'd"
  dec_mul :: "'d \<Rightarrow> 'd \<Rightarrow> 'd"
  dec_div :: "'d \<Rightarrow> 'd \<Rightarrow> 'd"
  dec_sqrt :: "'d \<Rightarrow> 'd"
  dec_lessThanOrEqualTo :: "'d \<Rightarrow> 'd \<Rightarrow> bool"

text \<open>
  \<^verbatim>\<open>Input\<close> has an optional click, an \<^verbatim>\<open>UnsafePoint2D\<close>. Of a \<^verbatim>\<open>Frame\<close>, the tick and
  the input are fields; its \<^verbatim>\<open>enqueueCommand\<close> is a callback into the command manager:
  \<open>update\<close> returns the commands that it passes to the callback.
\<close>

record 'n input =
  leftMouseClick :: "'n point2d option"

record 'n frame =
  frame_tick :: int
  frame_input :: "'n input"

text \<open>
  The fields of \<^verbatim>\<open>Unit\<close> and of \<^verbatim>\<open>Entity\<close>, which it extends (\<^verbatim>\<open>id\<close>, \<^verbatim>\<open>playerId\<close>
  and \<^verbatim>\<open>size\<close> under names that are free here).
\<close>

record 'd game_unit =
  entityId :: nat
  unit_playerId :: nat
  isMine :: bool
  speed :: 'd
  unit_size :: nat
  color :: string
  position :: "'d point2d"
  target :: "'d point2d option"

text \<open>
  \<^verbatim>\<open>Unit.update\<close>: first the Move command for a click on a unit of the local player, then
  the step towards the target.
\<close>

definition update ::
  "('n, 'd) decimal_ops \<Rightarrow> 'n frame \<Rightarrow> 'd game_unit \<Rightarrow> 'd command list \<times> 'd game_unit" where
  "update ops frame u =
     (let enqueued =
            (case leftMouseClick (frame_input frame) of
               None \<Rightarrow> []
             | Some click \<Rightarrow>
                 if isMine u
                 then [Move (unit_playerId u) (entityId u)
                         \<lparr> x = dec_of_number ops (x click), y = dec_of_number ops (y click) \<rparr>]
                 else [])
      in (enqueued,
          case target u of
            None \<Rightarrow> u
          | Some tg \<Rightarrow>
              let dx = dec_minus ops (x tg) (x (position u));
                  dy = dec_minus ops (y tg) (y (position u));
                  distance = dec_sqrt ops (dec_plus ops (dec_mul ops dx dx) (dec_mul ops dy dy))
              in if dec_lessThanOrEqualTo ops distance (speed u)
                 then u\<lparr>position := \<lparr> x = x tg, y = y tg \<rparr>, target := None\<rparr>
                 else u\<lparr>position :=
                        \<lparr> x = dec_plus ops (x (position u))
                                (dec_div ops (dec_mul ops (speed u) dx) distance),
                          y = dec_plus ops (y (position u))
                                (dec_div ops (dec_mul ops (speed u) dy) distance) \<rparr>\<rparr>))"

fun processCommand :: "'d command \<Rightarrow> 'd game_unit \<Rightarrow> 'd game_unit" where
  "processCommand (Move _ _ point) u = u\<lparr>target := Some point\<rparr>"
| "processCommand (Noop _) u = u"

text \<open>
  The unit after the updates of consecutive ticks, when no command changes its target in
  between.
\<close>

definition updates :: "('n, 'd) decimal_ops \<Rightarrow> 'n frame list \<Rightarrow> 'd game_unit \<Rightarrow> 'd game_unit" where
  "updates ops frames u = fold (\<lambda>frame u'. snd (update ops frame u')) frames u"

subsection \<open>Two arithmetics\<close>

text \<open>
  Exact arithmetic on the real numbers. The quotient by zero and the root of a negative
  number are not what decimal.js returns (\<^verbatim>\<open>NaN\<close> or an infinity): \<^verbatim>\<open>update\<close> takes the
  root of a sum of two squares, and divides by a distance that is above the speed, so
  neither occurs with a speed that is not negative.
\<close>

definition exact_ops :: "(real, real) decimal_ops" where
  "exact_ops =
     \<lparr> dec_of_number = (\<lambda>n. n), dec_minus = (-), dec_plus = (+), dec_mul = (*), dec_div = (/),
       dec_sqrt = sqrt, dec_lessThanOrEqualTo = (\<le>) \<rparr>"

text \<open>
  The distance between two points, and the point at the fraction \<open>r\<close> of the way from
  \<open>p\<close> to \<open>q\<close>, in exact arithmetic.
\<close>

definition distance_to :: "real point2d \<Rightarrow> real point2d \<Rightarrow> real" where
  "distance_to p q = sqrt ((x q - x p) * (x q - x p) + (y q - y p) * (y q - y p))"

definition towards :: "real point2d \<Rightarrow> real point2d \<Rightarrow> real \<Rightarrow> real point2d" where
  "towards p q r = \<lparr> x = x p + r * (x q - x p), y = y p + r * (y q - y p) \<rparr>"

text \<open>
  Modelled from the documentation of decimal.js, which is not part of the sources: a
  \<^verbatim>\<open>Decimal\<close> is a decimal fraction; the result of \<^verbatim>\<open>plus\<close>, \<^verbatim>\<open>minus\<close>, \<^verbatim>\<open>mul\<close>,
  \<^verbatim>\<open>div\<close> and \<^verbatim>\<open>sqrt\<close> is the exact result rounded to \<^verbatim>\<open>precision\<close> significant
  digits with the rounding mode \<^verbatim>\<open>rounding\<close>; the defaults, which the sources never
  change, are 20 digits and \<^verbatim>\<open>ROUND_HALF_UP\<close> (to the nearest, ties away from zero). The
  constructor does not round. Values are rational numbers here, with the precision as a
  parameter; \<^verbatim>\<open>NaN\<close> and the infinities are left out, as above.

  \<open>exponent10 q\<close> is the exponent of the leading digit of \<open>q\<close>, found from the numbers
  of digits of numerator and denominator. \<open>isqrt\<close> is the integer square root, by
  bisection; the nearest integer to the root of \<open>r\<close> is \<open>(isqrt \<lfloor>4 r\<rfloor> + 1) div 2\<close>.
\<close>

function ndigits :: "int \<Rightarrow> int" where
  "ndigits n = (if n < 10 then 1 else 1 + ndigits (n div 10))"
  by pat_completeness auto
termination
  by (relation "measure nat") auto

declare ndigits.simps [simp del]

definition pow10 :: "int \<Rightarrow> rat" where
  "pow10 k = (if 0 \<le> k then 10 ^ nat k else 1 / 10 ^ nat (- k))"

definition exponent10 :: "rat \<Rightarrow> int" where
  "exponent10 q =
     (let (a, b) = quotient_of \<bar>q\<bar>;
          k = ndigits a - ndigits b
      in if pow10 k \<le> \<bar>q\<bar> then k else k - 1)"

definition round_half_up :: "rat \<Rightarrow> int" where
  "round_half_up q = (if 0 \<le> q then \<lfloor>q + 1 / 2\<rfloor> else - \<lfloor>- q + 1 / 2\<rfloor>)"

definition to_precision :: "nat \<Rightarrow> rat \<Rightarrow> rat" where
  "to_precision p q =
     (if q = 0 then 0
      else let scale = pow10 (int p - 1 - exponent10 q)
           in of_int (round_half_up (q * scale)) / scale)"

function isqrt_between :: "int \<Rightarrow> int \<Rightarrow> int \<Rightarrow> int" where
  "isqrt_between n lo hi =
     (if hi \<le> lo + 1 then lo
      else let mid = (lo + hi) div 2
           in if mid * mid \<le> n then isqrt_between n mid hi else isqrt_between n lo mid)"
  by pat_completeness auto
termination
  by (relation "measure (\<lambda>(n, lo, hi). nat (hi - lo))") auto

declare isqrt_between.simps [simp del]

definition isqrt :: "int \<Rightarrow> int" where
  "isqrt n = isqrt_between n 0 (n + 1)"

definition sqrt_to_precision :: "nat \<Rightarrow> rat \<Rightarrow> rat" where
  "sqrt_to_precision p q =
     (if q \<le> 0 then 0
      else let scale = pow10 (int p - 1 - exponent10 q div 2)
           in of_int ((isqrt \<lfloor>4 * q * scale * scale\<rfloor> + 1) div 2) / scale)"

definition decimal_js :: "nat \<Rightarrow> (rat, rat) decimal_ops" where
  "decimal_js p =
     \<lparr> dec_of_number = (\<lambda>n. n),
       dec_minus = (\<lambda>a b. to_precision p (a - b)),
       dec_plus = (\<lambda>a b. to_precision p (a + b)),
       dec_mul = (\<lambda>a b. to_precision p (a * b)),
       dec_div = (\<lambda>a b. to_precision p (a / b)),
       dec_sqrt = sqrt_to_precision p,
       dec_lessThanOrEqualTo = (\<le>) \<rparr>"

text \<open>Units and frames for the examples.\<close>

definition far_unit :: "rat game_unit" where
  "far_unit =
     \<lparr> entityId = 0, unit_playerId = 0, isMine = True, speed = 4, unit_size = 18,
       color = ''#FF0000'',
       position = \<lparr> x = 100000000000000000000, y = 0 \<rparr>,
       target = Some \<lparr> x = 100000000000000000010, y = 0 \<rparr> \<rparr>"

definition no_click :: "'n frame" where
  "no_click = \<lparr> frame_tick = 0, frame_input = \<lparr> leftMouseClick = None \<rparr> \<rparr>"

definition unit_at :: "'d \<Rightarrow> 'd point2d \<Rightarrow> 'd point2d option \<Rightarrow> 'd game_unit" where
  "unit_at s p tg =
     \<lparr> entityId = 0, unit_playerId = 0, isMine = True, speed = s, unit_size = 18,
       color = ''#FF0000'', position = p, target = tg \<rparr>"

text \<open>
  A unit of speed 1 at the origin on its way to \<open>(1, 2)\<close>, and the square of the length of
  the move from one state of a unit to another.
\<close>

definition skew_unit :: "rat game_unit" where
  "skew_unit = unit_at 1 \<lparr> x = 0, y = 0 \<rparr> (Some \<lparr> x = 1, y = 2 \<rparr>)"

definition moved_squared :: "rat game_unit \<Rightarrow> rat game_unit \<Rightarrow> rat" where
  "moved_squared u v =
     (x (position v) - x (position u)) * (x (position v) - x (position u)) +
     (y (position v) - y (position u)) * (y (position v) - y (position u))"



section \<open>Invariants of the command manager\<close>

text \<open>
  \<open>has_entry\<close>: the map holds a command list for the pair of a tick and a player.
  \<open>store\<close>: what the receive task does to the map with the entries of one message of
  player \<open>p\<close> while the manager is at tick \<open>T\<close>.
\<close>

definition has_entry :: "'d tick_commands_map \<Rightarrow> int \<Rightarrow> nat \<Rightarrow> bool" where
  "has_entry m t p = (case m t of None \<Rightarrow> False | Some tc \<Rightarrow> tc p \<noteq> None)"

definition store :: "nat \<Rightarrow> int \<Rightarrow> (int \<times> 'd command list) list \<Rightarrow> 'd tick_commands_map \<Rightarrow> 'd tick_commands_map" where
  "store p T es m =
     fold (\<lambda>e m'. if T \<le> fst e then addCommandsForPlayer (fst e) p (Array (snd e)) m' else m') es m"

text \<open>
  An ack table is well formed when it has a set for exactly the other players and no set
  lists a tick twice. Every inner object of the map has keys among \<open>K\<close>; no stored list
  is empty; no tick of the map is below \<open>b\<close>.
\<close>

definition acks_wf :: "nat list \<Rightarrow> acks \<Rightarrow> bool" where
  "acks_wf ids a = (dom a = set ids \<and> (\<forall>p ts. a p = Some ts \<longrightarrow> distinct ts))"

definition keys_within :: "nat set \<Rightarrow> 'd tick_commands_map \<Rightarrow> bool" where
  "keys_within K m = (\<forall>t tc. m t = Some tc \<longrightarrow> dom tc \<subseteq> K)"

definition lists_nonempty :: "'d tick_commands_map \<Rightarrow> bool" where
  "lists_nonempty m = (\<forall>t tc p. m t = Some tc \<longrightarrow> tc p \<noteq> Some [])"

definition ticks_from :: "int \<Rightarrow> 'd tick_commands_map \<Rightarrow> bool" where
  "ticks_from b m = (\<forall>t. m t \<noteq> None \<longrightarrow> b \<le> t)"

definition manager_inv :: "'d command_manager \<Rightarrow> bool" where
  "manager_inv s =
     (sortedPlayerIds s = js_sort (playerId s # otherPlayerIds s) \<and>
      acks_wf (otherPlayerIds s) (acksToSend s) \<and>
      acks_wf (otherPlayerIds s) (pendingAcks s) \<and>
      (receiving s \<longrightarrow>
         keys_within (insert (playerId s) (set (otherPlayerIds s))) (tickCommandsMap s)) \<and>
      lists_nonempty (tickCommandsMap s))"

definition pruned :: "'d command_manager \<Rightarrow> bool" where
  "pruned s = ticks_from (tick s - int (commandDelay s) - 1) (tickCommandsMap s)"

text \<open>Managers and messages for the examples.\<close>

definition two_players :: "rat command_manager" where
  "two_players = constructor 0 [1] 1 0"

definition msg_tick1 :: "rat network_message" where
  "msg_tick1 = \<lparr> msg_playerId = 1, msg_commands = [(1, [Noop 1])], msg_acks = [1] \<rparr>"


definition msg_retransmit :: "rat network_message" where
  "msg_retransmit = \<lparr> msg_playerId = 1, msg_commands = [(1, []), (0, [Noop 1])], msg_acks = [] \<rparr>"

definition three_players :: "rat command_manager" where
  "three_players = constructor 0 [1, 2] 1 0"

definition msg_of_1 :: "rat network_message" where
  "msg_of_1 = \<lparr> msg_playerId = 1, msg_commands = [(1, [Noop 1])], msg_acks = [] \<rparr>"

definition msg_of_2 :: "rat network_message" where
  "msg_of_2 = \<lparr> msg_playerId = 2,
     msg_commands = [(1, [Move 2 2 \<lparr> x = 120, y = 80 \<rparr>])], msg_acks = [] \<rparr>"

definition ten_and_two :: "rat command_manager" where
  "ten_and_two = constructor 2 [10] 1 0"

definition late_start :: "rat command_manager" where
  "late_start = constructor 0 [1] 3 5"


section \<open>Properties of the simulated network\<close>

text \<open>
  C10. \<^verbatim>\<open>createSocket(playerId, options)\<close> returns a new socket bound to the player id,
  registered with an inbox of its own, when the network has no socket for the id; when it
  has one, the call throws and the network (the existing registration with it) is what it
  was.
\<close>

theorem createSocket_new_or_throws:
  "(sockets n pid = None \<longrightarrow>
      (\<exists>sock n'. createSocket pid options n = (Inr sock, n') \<and>
         sock_playerId sock = pid \<and> sock_options sock = options \<and>
         sockets n' = (sockets n)(pid \<mapsto> sock) \<and>
         inboxes n' =
           (inboxes n)(pid \<mapsto> \<lparr> trigger_set = False, requests = 0, yielded = [] \<rparr>))) \<and>
   (sockets n pid \<noteq> None \<longrightarrow>
      createSocket pid options n = (Inl (SocketAlreadyExists pid), n))"
  by (auto simp: createSocket_def Let_def)

theorem createSocket_new_or_throws_witness:
  "fst (createSocket 1 no_options (new_network :: nat network)) =
     Inr \<lparr> sock_playerId = 1, sock_options = no_options \<rparr> \<and>
   createSocket 1 \<lparr> opt_delay = Some (60, 80), opt_packetLoss = Some 0 \<rparr>
       (snd (createSocket 1 no_options (new_network :: nat network))) =
     (Inl (SocketAlreadyExists 1), snd (createSocket 1 no_options new_network))"
proof -
  let ?n = "new_network :: nat network"
  let ?n1 = "snd (createSocket 1 no_options ?n)"
  have free: "sockets ?n 1 = None"
    by (simp add: new_network_def)
  have taken: "sockets ?n1 1 \<noteq> None"
    by (simp add: createSocket_def new_network_def Let_def)
  from free createSocket_new_or_throws [of ?n 1 no_options]
  have "\<exists>sock n'. createSocket 1 no_options ?n = (Inr sock, n') \<and>
          sock_playerId sock = 1 \<and> sock_options sock = no_options"
    by blast
  then have first: "fst (createSocket 1 no_options ?n) =
      Inr \<lparr> sock_playerId = 1, sock_options = no_options \<rparr>"
    by auto
  from taken
    createSocket_new_or_throws [of ?n1 1 "\<lparr> opt_delay = Some (60, 80), opt_packetLoss = Some 0 \<rparr>"]
  have "createSocket 1 \<lparr> opt_delay = Some (60, 80), opt_packetLoss = Some 0 \<rparr> ?n1 =
      (Inl (SocketAlreadyExists 1), ?n1)"
    by blast
  with first show ?thesis by simp
qed

text \<open>
  A send that passes both packet-loss rolls returns normally, and what the consumer of the
  receiver has been given grows by the message exactly if \<^verbatim>\<open>trigger\<close> holds a resolver.
\<close>

lemma sendMessage_accepted:
  assumes "sockets n sender = Some ss" and "sockets n pid = Some rs"
    and "\<not> isPacketLost ss rs r1 r2" and "inboxes n pid = Some b"
  shows "sendMessage sender pid message r1 r2 n =
           (Inr (), n\<lparr>inboxes := (inboxes n)(pid \<mapsto> newMessage message b)\<rparr>)"
  using assms by (simp add: sendMessage_def)

lemma newMessage_awaited:
  "trigger_set b \<Longrightarrow> yielded (newMessage v b) = yielded b @ [v]"
  by (simp add: newMessage_def generator_resume_def Let_def)

lemma newMessage_not_awaited:
  "\<not> trigger_set b \<Longrightarrow> newMessage v b = b"
  by (simp add: newMessage_def)

text \<open>
  One round of the loop: with a request waiting, an accepted message is given to the
  consumer, and after the consumer's next request a request is waiting again. The sockets
  are not touched.
\<close>

lemma for_await_round:
  assumes "sockets n sender = Some ss" and "sockets n pid = Some rs"
    and "\<not> isPacketLost ss rs r1 r2" and "inboxes n pid = Some b" and "trigger_set b"
  shows "\<exists>b'. for_await pid ((sender, message, r1, r2) # ds) n =
                for_await pid ds (n\<lparr>inboxes := (inboxes n)(pid \<mapsto> b')\<rparr>) \<and>
              trigger_set b' \<and> yielded b' = yielded b @ [message]"
proof -
  let ?n1 = "n\<lparr>inboxes := (inboxes n)(pid \<mapsto> newMessage message b)\<rparr>"
  let ?b' = "(newMessage message b)\<lparr>trigger_set := True,
               requests := Suc (requests (newMessage message b))\<rparr>"
  from assms have send: "snd (sendMessage sender pid message r1 r2 n) = ?n1"
    by (simp add: sendMessage_accepted)
  from assms have grown: "received pid ?n1 \<noteq> received pid n"
    by (simp add: received_def newMessage_awaited)
  have "generator_next pid ?n1 = n\<lparr>inboxes := (inboxes n)(pid \<mapsto> ?b')\<rparr>"
    by (simp add: generator_next_def)
  with send grown
  have "for_await pid ((sender, message, r1, r2) # ds) n =
          for_await pid ds (n\<lparr>inboxes := (inboxes n)(pid \<mapsto> ?b')\<rparr>)"
    by (simp add: Let_def)
  moreover from assms have "yielded ?b' = yielded b @ [message]"
    by (simp add: newMessage_awaited)
  ultimately show ?thesis by auto
qed

lemma for_await_all:
  assumes "sockets n pid = Some rs"
  shows "inboxes n pid = Some b \<Longrightarrow> trigger_set b \<Longrightarrow>
         \<forall>(sender, message, r1, r2) \<in> set ds.
            \<exists>ss. sockets n sender = Some ss \<and> \<not> isPacketLost ss rs r1 r2 \<Longrightarrow>
         received pid (for_await pid ds n) = yielded b @ map (\<lambda>d. fst (snd d)) ds"
  using assms
proof (induction ds arbitrary: n b)
  case Nil
  then show ?case by (simp add: received_def)
next
  case (Cons d ds)
  obtain sender message r1 r2 where d: "d = (sender, message, r1, r2)"
    by (cases d) auto
  from Cons.prems d obtain ss where
    ss: "sockets n sender = Some ss" "\<not> isPacketLost ss rs r1 r2"
    by auto
  from for_await_round [OF ss(1) Cons.prems(4) ss(2) Cons.prems(1) Cons.prems(2)]
  obtain b' where
    step: "for_await pid ((sender, message, r1, r2) # ds) n =
             for_await pid ds (n\<lparr>inboxes := (inboxes n)(pid \<mapsto> b')\<rparr>)"
    and b': "trigger_set b'" "yielded b' = yielded b @ [message]"
    by blast
  let ?n' = "n\<lparr>inboxes := (inboxes n)(pid \<mapsto> b')\<rparr>"
  have "received pid (for_await pid ds ?n') = yielded b' @ map (\<lambda>d. fst (snd d)) ds"
  proof (rule Cons.IH)
    show "inboxes ?n' pid = Some b'" by simp
    show "trigger_set b'" by (rule b'(1))
    show "\<forall>(sender, message, r1, r2) \<in> set ds.
            \<exists>ss. sockets ?n' sender = Some ss \<and> \<not> isPacketLost ss rs r1 r2"
      using Cons.prems(3) by simp
    show "sockets ?n' pid = Some rs" using Cons.prems(4) by simp
  qed
  with step b' d show ?case by simp
qed

text \<open>
  C4. An accepted message reaches the consumer of its target when a request of the
  consumer is waiting at the moment of the delivery, that is, when \<^verbatim>\<open>trigger\<close> holds a
  resolver: the send returns normally and the message is the next one the consumer is
  given. A consumer that asks for the next message as soon as it has one, as the
  \<^verbatim>\<open>for await\<close> loop of the command manager does, therefore is given every accepted
  message, in the order of the deliveries, and has a request waiting afterwards.
\<close>

theorem requested_messages_are_delivered:
  assumes "sockets n pid = Some rs" and "inboxes n pid = Some b" and "trigger_set b"
  shows "(\<forall>sender message r1 r2 ss.
            sockets n sender = Some ss \<and> \<not> isPacketLost ss rs r1 r2 \<longrightarrow>
              fst (sendMessage sender pid message r1 r2 n) = Inr () \<and>
              received pid (snd (sendMessage sender pid message r1 r2 n)) =
                yielded b @ [message]) \<and>
         ((\<forall>(sender, message, r1, r2) \<in> set ds.
             \<exists>ss. sockets n sender = Some ss \<and> \<not> isPacketLost ss rs r1 r2) \<longrightarrow>
            received pid (for_await pid ds n) = yielded b @ map (\<lambda>d. fst (snd d)) ds)"
proof (intro conjI allI impI)
  fix sender message r1 r2 ss
  assume a: "sockets n sender = Some ss \<and> \<not> isPacketLost ss rs r1 r2"
  with assms
  have send: "sendMessage sender pid message r1 r2 n =
      (Inr (), n\<lparr>inboxes := (inboxes n)(pid \<mapsto> newMessage message b)\<rparr>)"
    by (simp add: sendMessage_accepted)
  then show "fst (sendMessage sender pid message r1 r2 n) = Inr ()" by simp
  from send assms(3)
  show "received pid (snd (sendMessage sender pid message r1 r2 n)) = yielded b @ [message]"
    by (simp add: received_def newMessage_awaited)
next
  assume "\<forall>(sender, message, r1, r2) \<in> set ds.
            \<exists>ss. sockets n sender = Some ss \<and> \<not> isPacketLost ss rs r1 r2"
  with assms show "received pid (for_await pid ds n) = yielded b @ map (\<lambda>d. fst (snd d)) ds"
    by (simp add: for_await_all)
qed

theorem requested_messages_are_delivered_witness:
  "sockets (generator_next 1 two_sockets :: rat network_message network) 1 =
     Some \<lparr> sock_playerId = 1, sock_options = no_options \<rparr> \<and>
   map_option trigger_set
     (inboxes (generator_next 1 two_sockets :: rat network_message network) 1) = Some True \<and>
   \<not> isPacketLost \<lparr> sock_playerId = 2, sock_options = no_options \<rparr>
       \<lparr> sock_playerId = 1, sock_options = no_options \<rparr> 0 0 \<and>
   fst (sendMessage 2 1 msg_a 0 0 (generator_next 1 two_sockets)) = Inr () \<and>
   received 1 (snd (sendMessage 2 1 msg_a 0 0 (generator_next 1 two_sockets))) = [msg_a] \<and>
   received 1 (for_await 1 [(2, msg_a, 0, 0), (2, msg_b, 0, 0)]
     (generator_next 1 two_sockets)) = [msg_a, msg_b]"
proof -
  let ?n = "generator_next 1 two_sockets :: rat network_message network"
  let ?rs = "\<lparr> sock_playerId = 1, sock_options = no_options \<rparr>"
  let ?ss = "\<lparr> sock_playerId = 2, sock_options = no_options \<rparr>"
  let ?b = "\<lparr> trigger_set = True, requests = 1, yielded = [] \<rparr> :: rat network_message inbox"
  let ?ds = "[(2, msg_a, 0, 0), (2, msg_b, 0, 0)] ::
               (nat \<times> rat network_message \<times> rat \<times> rat) list"
  have rs: "sockets ?n 1 = Some ?rs"
    by (simp add: two_sockets_def createSocket_def new_network_def generator_next_def Let_def)
  have ss: "sockets ?n 2 = Some ?ss"
    by (simp add: two_sockets_def createSocket_def new_network_def generator_next_def Let_def)
  have b: "inboxes ?n 1 = Some ?b"
    by (simp add: two_sockets_def createSocket_def new_network_def generator_next_def Let_def)
  have t: "trigger_set ?b" by simp
  have roll: "\<not> isPacketLost ?ss ?rs 0 0"
    by (simp add: isPacketLost_def no_options_def)
  have all: "\<forall>(sender, message, r1, r2) \<in> set ?ds.
      \<exists>ss. sockets ?n sender = Some ss \<and> \<not> isPacketLost ss ?rs r1 r2"
    using ss roll by simp
  note inst = requested_messages_are_delivered [OF rs b t, of ?ds]
  from inst ss roll
  have one: "fst (sendMessage 2 1 msg_a 0 0 ?n) = Inr () \<and>
      received 1 (snd (sendMessage 2 1 msg_a 0 0 ?n)) = yielded ?b @ [msg_a]"
    by blast
  from inst all
  have two: "received 1 (for_await 1 ?ds ?n) = yielded ?b @ map (\<lambda>d. fst (snd d)) ?ds"
    by blast
  from rs b roll one two show ?thesis by simp
qed

text \<open>
  The inbound side is one slot, and no queue stands behind it: \<^verbatim>\<open>newMessage\<close> has no
  branch for a \<^verbatim>\<open>trigger\<close> that is \<^verbatim>\<open>null\<close>. First, a consumer that has asked for one
  message and is still busy with it (its body awaits something, say) when the next message
  arrives: two messages of player 2 pass both packet-loss rolls one after the other, both
  sends return normally, and the second message is gone, also for a consumer that asks
  again afterwards. Second, a message that passes the rolls before the consumer has asked
  for any: the send returns normally, and the consumer, asking afterwards, has nothing.
\<close>

theorem accepted_message_without_request_is_dropped:
  "(let n = generator_next 1 two_sockets;
        r1 = sendMessage 2 1 msg_a 0 0 n;
        r2 = sendMessage 2 1 msg_b 0 0 (snd r1);
        n' = generator_next 1 (snd r2)
    in (fst r1, fst r2, received 1 n')) =
   (Inr (), Inr (), [msg_a]) \<and>
   (let r = sendMessage 2 1 msg_a 0 0 two_sockets;
        n = generator_next 1 (snd r)
    in (fst r, received 1 n)) =
   (Inr (), [])"
  by (simp add: two_sockets_def createSocket_def new_network_def generator_next_def
      sendMessage_def isPacketLost_def newMessage_def generator_resume_def received_def
      no_options_def Let_def)

section \<open>Facts about the command manager\<close>

subsection \<open>Storing commands\<close>

lemma add_other_tick: "t' \<noteq> t \<Longrightarrow> addCommandsForPlayer t p c m t' = m t'"
  by (simp add: addCommandsForPlayer_def Let_def split: option.splits)

lemma add_present: "has_entry m t p \<Longrightarrow> addCommandsForPlayer t p c m = m"
  by (auto simp: addCommandsForPlayer_def has_entry_def Let_def fun_eq_iff split: option.splits)

lemma add_absent:
  "\<not> payload_is_empty c \<Longrightarrow> \<not> has_entry m t p \<Longrightarrow>
   addCommandsForPlayer t p c m =
     m(t \<mapsto> (case m t of None \<Rightarrow> Map.empty | Some tc \<Rightarrow> tc)(p \<mapsto> payload_list c))"
  by (auto simp: addCommandsForPlayer_def has_entry_def Let_def split: option.splits)

lemma add_has_entry:
  "\<not> payload_is_empty c \<Longrightarrow> has_entry (addCommandsForPlayer t p c m) t p"
  by (auto simp: addCommandsForPlayer_def has_entry_def Let_def split: option.splits)

lemma add_keeps_entry:
  "has_entry m t' q \<Longrightarrow> has_entry (addCommandsForPlayer t p c m) t' q"
  by (auto simp: addCommandsForPlayer_def has_entry_def Let_def split: option.splits)

lemma add_get_absent:
  "\<not> payload_is_empty c \<Longrightarrow> \<not> has_entry m t p \<Longrightarrow>
   getCommandsForPlayer (addCommandsForPlayer t p c m) t p = payload_list c"
  by (simp add: add_absent getCommandsForPlayer_def)

lemma add_get_other:
  "(t', q) \<noteq> (t, p) \<Longrightarrow>
   getCommandsForPlayer (addCommandsForPlayer t p c m) t' q = getCommandsForPlayer m t' q"
  by (auto simp: addCommandsForPlayer_def getCommandsForPlayer_def Let_def split: option.splits)

lemma add_idem:
  "\<not> payload_is_empty c \<Longrightarrow>
   addCommandsForPlayer t p c' (addCommandsForPlayer t p c m) = addCommandsForPlayer t p c m"
  by (rule add_present) (rule add_has_entry)

lemma add_commute:
  "p \<noteq> q \<Longrightarrow>
   addCommandsForPlayer t p c (addCommandsForPlayer u q d m) =
   addCommandsForPlayer u q d (addCommandsForPlayer t p c m)"
  by (auto simp: addCommandsForPlayer_def Let_def fun_eq_iff fun_upd_twist split: option.splits)


lemma store_Nil [simp]: "store p T [] m = m"
  by (simp add: store_def)

lemma store_Cons [simp]:
  "store p T (e # es) m =
     store p T es (if T \<le> fst e then addCommandsForPlayer (fst e) p (Array (snd e)) m else m)"
  by (simp add: store_def)

lemma receive_entries_known:
  "acksToSend s p = Some toSend \<Longrightarrow>
   receive_entries p es s =
     s\<lparr>tickCommandsMap := store p (tick s) es (tickCommandsMap s),
       acksToSend := (acksToSend s)(p \<mapsto> fold set_add (map fst es) toSend)\<rparr>"
proof (induction es arbitrary: s toSend)
  case Nil
  then show ?case by (simp add: fun_upd_idem)
next
  case (Cons e es)
  define m1 where "m1 = (if tick s \<le> fst e
      then addCommandsForPlayer (fst e) p (Array (snd e)) (tickCommandsMap s)
      else tickCommandsMap s)"
  define s2 where "s2 = s\<lparr>tickCommandsMap := m1,
      acksToSend := (acksToSend s)(p \<mapsto> set_add (fst e) toSend)\<rparr>"
  have s2: "acksToSend s2 p = Some (set_add (fst e) toSend)"
    by (simp add: s2_def)
  have "receive_entries p (e # es) s = receive_entries p es s2"
    using Cons.prems by (simp add: s2_def m1_def)
  also from s2 have "receive_entries p es s2 =
      s2\<lparr>tickCommandsMap := store p (tick s2) es (tickCommandsMap s2),
         acksToSend := (acksToSend s2)(p \<mapsto> fold set_add (map fst es) (set_add (fst e) toSend))\<rparr>"
    by (rule Cons.IH)
  also have "\<dots> = s\<lparr>tickCommandsMap := store p (tick s) (e # es) (tickCommandsMap s),
      acksToSend := (acksToSend s)(p \<mapsto> fold set_add (map fst (e # es)) toSend)\<rparr>"
    by (simp add: s2_def m1_def)
  finally show ?case .
qed

lemma receive_entries_unknown:
  "acksToSend s p = None \<Longrightarrow>
   receive_entries p es s =
     (case es of
        [] \<Rightarrow> s
      | e # _ \<Rightarrow>
          s\<lparr>tickCommandsMap := store p (tick s) [e] (tickCommandsMap s), receiving := False\<rparr>)"
  by (cases es) (auto simp: Let_def)

lemma receive_acks_known:
  "pendingAcks s p = Some pending \<Longrightarrow>
   receive_acks p ts s = s\<lparr>pendingAcks := (pendingAcks s)(p \<mapsto> fold set_delete ts pending)\<rparr>"
proof (induction ts arbitrary: s pending)
  case Nil
  then show ?case by (simp add: fun_upd_idem)
next
  case (Cons t ts)
  define s1 where "s1 = s\<lparr>pendingAcks := (pendingAcks s)(p \<mapsto> set_delete t pending)\<rparr>"
  have s1: "pendingAcks s1 p = Some (set_delete t pending)"
    by (simp add: s1_def)
  have "receive_acks p (t # ts) s = receive_acks p ts s1"
    using Cons.prems by (simp add: s1_def)
  also from s1 have "receive_acks p ts s1 =
      s1\<lparr>pendingAcks := (pendingAcks s1)(p \<mapsto> fold set_delete ts (set_delete t pending))\<rparr>"
    by (rule Cons.IH)
  also have "\<dots> = s\<lparr>pendingAcks := (pendingAcks s)(p \<mapsto> fold set_delete (t # ts) pending)\<rparr>"
    by (simp add: s1_def)
  finally show ?case .
qed

lemma receive_acks_unknown:
  "pendingAcks s p = None \<Longrightarrow>
   receive_acks p ts s = (case ts of [] \<Rightarrow> s | _ # _ \<Rightarrow> s\<lparr>receiving := False\<rparr>)"
  by (cases ts) auto



subsection \<open>Ack sets\<close>

lemma distinct_set_add: "distinct ts \<Longrightarrow> distinct (set_add t ts)"
  by (simp add: set_add_def)

lemma distinct_set_delete: "distinct ts \<Longrightarrow> distinct (set_delete t ts)"
  by (simp add: set_delete_def)

lemma set_set_add [simp]: "set (set_add t ts) = insert t (set ts)"
  by (auto simp: set_add_def)

lemma set_set_delete [simp]: "set (set_delete t ts) = set ts - {t}"
  by (auto simp: set_delete_def)

lemma distinct_fold_set_add: "distinct ts \<Longrightarrow> distinct (fold set_add us ts)"
  by (induction us arbitrary: ts) (simp_all add: distinct_set_add)

lemma distinct_fold_set_delete: "distinct ts \<Longrightarrow> distinct (fold set_delete us ts)"
  by (induction us arbitrary: ts) (simp_all add: distinct_set_delete)

lemma set_fold_set_add [simp]: "set (fold set_add us ts) = set us \<union> set ts"
  by (induction us arbitrary: ts) auto

lemma set_fold_set_delete [simp]: "set (fold set_delete us ts) = set ts - set us"
  by (induction us arbitrary: ts) auto

lemma acks_wf_update:
  "acks_wf ids a \<Longrightarrow> a p = Some old \<Longrightarrow> distinct ts \<Longrightarrow> acks_wf ids (a(p \<mapsto> ts))"
  by (auto simp: acks_wf_def)

lemma acks_wf_distinct: "acks_wf ids a \<Longrightarrow> a p = Some ts \<Longrightarrow> distinct ts"
  by (auto simp: acks_wf_def)

lemma acks_wf_dom: "acks_wf ids a \<Longrightarrow> (p \<in> set ids) = (a p \<noteq> None)"
  by (auto simp: acks_wf_def)


subsection \<open>What storing keeps\<close>

lemma add_keys_within:
  "keys_within K m \<Longrightarrow> p \<in> K \<Longrightarrow> keys_within K (addCommandsForPlayer t p c m)"
  by (auto simp: keys_within_def addCommandsForPlayer_def Let_def split: option.splits if_splits)

lemma add_lists_nonempty:
  "lists_nonempty m \<Longrightarrow> lists_nonempty (addCommandsForPlayer t p c m)"
proof (cases c)
  case (Single c0)
  assume "lists_nonempty m"
  then show ?thesis using Single
    by (auto simp: lists_nonempty_def addCommandsForPlayer_def Let_def split: option.splits if_splits)
next
  case (Array cs)
  assume "lists_nonempty m"
  then show ?thesis using Array
    by (auto simp: lists_nonempty_def addCommandsForPlayer_def Let_def split: option.splits if_splits)
qed

lemma add_ticks_from:
  "ticks_from b m \<Longrightarrow> b \<le> t \<Longrightarrow> ticks_from b (addCommandsForPlayer t p c m)"
  by (auto simp: ticks_from_def addCommandsForPlayer_def Let_def split: option.splits if_splits)

lemma store_keys_within:
  "keys_within K m \<Longrightarrow> p \<in> K \<Longrightarrow> keys_within K (store p T es m)"
  by (induction es arbitrary: m) (simp_all add: add_keys_within)

lemma store_lists_nonempty: "lists_nonempty m \<Longrightarrow> lists_nonempty (store p T es m)"
  by (induction es arbitrary: m) (simp_all add: add_lists_nonempty)

lemma store_ticks_from: "ticks_from b m \<Longrightarrow> b \<le> T \<Longrightarrow> ticks_from b (store p T es m)"
  by (induction es arbitrary: m) (simp_all add: add_ticks_from)



subsection \<open>One message\<close>

lemma receive_known:
  assumes "receiving s" "acksToSend s (msg_playerId msg) = Some toSend"
    "pendingAcks s (msg_playerId msg) = Some pending"
  shows "receive s msg =
     s\<lparr>tickCommandsMap :=
         store (msg_playerId msg) (tick s) (object_entries (msg_commands msg)) (tickCommandsMap s),
       acksToSend := (acksToSend s)(msg_playerId msg \<mapsto>
         fold set_add (map fst (object_entries (msg_commands msg))) toSend),
       pendingAcks := (pendingAcks s)(msg_playerId msg \<mapsto> fold set_delete (msg_acks msg) pending)\<rparr>"
  using assms
  by (simp add: receive_def Let_def receive_entries_known [OF assms(2)] receive_acks_known)

lemma receive_cases:
  "\<exists>es a b r. set es \<subseteq> set (object_entries (msg_commands msg)) \<and>
     receive s msg =
       s\<lparr>tickCommandsMap := store (msg_playerId msg) (tick s) es (tickCommandsMap s),
         acksToSend := a, pendingAcks := b, receiving := r\<rparr> \<and>
     (r \<longrightarrow> receiving s) \<and>
     (r \<longrightarrow> es = [] \<or> acksToSend s (msg_playerId msg) \<noteq> None) \<and>
     (\<forall>ids. acks_wf ids (acksToSend s) \<longrightarrow> acks_wf ids a) \<and>
     (\<forall>ids. acks_wf ids (pendingAcks s) \<longrightarrow> acks_wf ids b)"
proof -
  let ?p = "msg_playerId msg"
  let ?es = "object_entries (msg_commands msg)"
  show ?thesis
  proof (cases "receiving s")
    case False
    then have "receive s msg = s\<lparr>tickCommandsMap := store ?p (tick s) [] (tickCommandsMap s),
        acksToSend := acksToSend s, pendingAcks := pendingAcks s, receiving := False\<rparr>"
      by (simp add: receive_def)
    then show ?thesis by (intro exI [of _ "[]"] exI conjI) (assumption | simp)+
  next
    case True
    show ?thesis
    proof (cases "acksToSend s ?p")
      case None
      show ?thesis
      proof (cases ?es)
        case Nil
        show ?thesis
        proof (cases "pendingAcks s ?p")
          case None
          then have "receive s msg = s\<lparr>tickCommandsMap := store ?p (tick s) [] (tickCommandsMap s),
            acksToSend := acksToSend s, pendingAcks := pendingAcks s,
            receiving := (msg_acks msg = [])\<rparr>"
            using True Nil by (cases "msg_acks msg") (simp_all add: receive_def)
          then show ?thesis using True
            by (intro exI [of _ "[]"] exI conjI) (assumption | simp)+
        next
          case (Some pending)
          then have "receive s msg = s\<lparr>tickCommandsMap := store ?p (tick s) [] (tickCommandsMap s),
            acksToSend := acksToSend s,
            pendingAcks := (pendingAcks s)(?p \<mapsto> fold set_delete (msg_acks msg) pending),
            receiving := True\<rparr>"
            using True Nil by (simp add: receive_def receive_acks_known)
          moreover have "\<forall>ids. acks_wf ids (pendingAcks s) \<longrightarrow>
            acks_wf ids ((pendingAcks s)(?p \<mapsto> fold set_delete (msg_acks msg) pending))"
            using Some by (auto intro!: acks_wf_update distinct_fold_set_delete dest: acks_wf_distinct)
          ultimately show ?thesis using True
            by (intro exI [of _ "[]"] exI conjI) (assumption | simp)+
        qed
      next
        case (Cons e es')
        then have "receive s msg = s\<lparr>tickCommandsMap := store ?p (tick s) [e] (tickCommandsMap s),
            acksToSend := acksToSend s, pendingAcks := pendingAcks s, receiving := False\<rparr>"
          using True None by (simp add: receive_def receive_entries_unknown)
        moreover have "set [e] \<subseteq> set ?es" using Cons by simp
        ultimately show ?thesis
          by (intro exI [of _ "[e]"] exI conjI) (assumption | simp)+
      qed
    next
      case (Some toSend)
      let ?a = "(acksToSend s)(?p \<mapsto> fold set_add (map fst ?es) toSend)"
      have a: "\<forall>ids. acks_wf ids (acksToSend s) \<longrightarrow> acks_wf ids ?a"
        using Some by (auto intro!: acks_wf_update distinct_fold_set_add dest: acks_wf_distinct)
      have e: "receive_entries ?p ?es s = s\<lparr>tickCommandsMap := store ?p (tick s) ?es (tickCommandsMap s),
          acksToSend := ?a\<rparr>"
        using Some by (rule receive_entries_known)
      show ?thesis
      proof (cases "pendingAcks s ?p")
        case None
        then have "receive s msg = s\<lparr>tickCommandsMap := store ?p (tick s) ?es (tickCommandsMap s),
            acksToSend := ?a, pendingAcks := pendingAcks s, receiving := (msg_acks msg = [])\<rparr>"
          using True e by (cases "msg_acks msg") (simp_all add: receive_def Let_def)
        then show ?thesis using True Some a
          by (intro exI [of _ ?es] exI conjI) (assumption | simp)+
      next
        case pend: (Some pending)
        have "receive s msg = s\<lparr>tickCommandsMap := store ?p (tick s) ?es (tickCommandsMap s),
            acksToSend := ?a,
            pendingAcks := (pendingAcks s)(?p \<mapsto> fold set_delete (msg_acks msg) pending),
            receiving := True\<rparr>"
          using True receive_known [OF True Some pend] by simp
        moreover have "\<forall>ids. acks_wf ids (pendingAcks s) \<longrightarrow>
            acks_wf ids ((pendingAcks s)(?p \<mapsto> fold set_delete (msg_acks msg) pending))"
          using pend by (auto intro!: acks_wf_update distinct_fold_set_delete dest: acks_wf_distinct)
        ultimately show ?thesis using True Some a
          by (intro exI [of _ ?es] exI conjI) (assumption | simp)+
      qed
    qed
  qed
qed



subsection \<open>Sending\<close>

lemma sendCommands_loop_frame:
  "\<exists>a b. snd (sendCommands_loop t tc ps s) = s\<lparr>acksToSend := a, pendingAcks := b\<rparr> \<and>
     (\<forall>ids. acks_wf ids (acksToSend s) \<longrightarrow> acks_wf ids a) \<and>
     (\<forall>ids. acks_wf ids (pendingAcks s) \<longrightarrow> acks_wf ids b)"
proof (induction ps arbitrary: s)
  case Nil
  have "snd (sendCommands_loop t tc [] s) = s\<lparr>acksToSend := acksToSend s, pendingAcks := pendingAcks s\<rparr>"
    by simp
  then show ?case by blast
next
  case (Cons p ps)
  show ?case
  proof (cases "pendingAcks s p")
    case None
    then have "snd (sendCommands_loop t tc (p # ps) s) =
        s\<lparr>acksToSend := acksToSend s, pendingAcks := pendingAcks s\<rparr>"
      by simp
    then show ?thesis by blast
  next
    case (Some pending)
    define b1 where "b1 = (pendingAcks s)(p \<mapsto> set_add t pending)"
    have b1: "\<forall>ids. acks_wf ids (pendingAcks s) \<longrightarrow> acks_wf ids b1"
      using Some unfolding b1_def
      by (auto intro!: acks_wf_update distinct_set_add dest: acks_wf_distinct)
    show ?thesis
    proof (cases "acksToSend s p")
      case None
      then have "snd (sendCommands_loop t tc (p # ps) s) =
          s\<lparr>acksToSend := acksToSend s, pendingAcks := b1\<rparr>"
        using Some by (simp add: Let_def b1_def)
      with b1 show ?thesis by blast
    next
      case toSend: (Some toSend)
      define a1 where "a1 = (acksToSend s)(p \<mapsto> [])"
      define s2 where "s2 = s\<lparr>pendingAcks := b1, acksToSend := a1\<rparr>"
      have a1: "\<forall>ids. acks_wf ids (acksToSend s) \<longrightarrow> acks_wf ids a1"
        using toSend unfolding a1_def by (auto intro!: acks_wf_update)
      have step: "snd (sendCommands_loop t tc (p # ps) s) = snd (sendCommands_loop t tc ps s2)"
        using Some toSend by (simp add: Let_def s2_def a1_def b1_def)
      from Cons.IH [of s2] obtain a b where
        ab: "snd (sendCommands_loop t tc ps s2) = s2\<lparr>acksToSend := a, pendingAcks := b\<rparr>"
          "\<forall>ids. acks_wf ids (acksToSend s2) \<longrightarrow> acks_wf ids a"
          "\<forall>ids. acks_wf ids (pendingAcks s2) \<longrightarrow> acks_wf ids b"
        by blast
      have "snd (sendCommands_loop t tc (p # ps) s) = s\<lparr>acksToSend := a, pendingAcks := b\<rparr>"
        using step ab(1) by (simp add: s2_def)
      moreover have "\<forall>ids. acks_wf ids (acksToSend s) \<longrightarrow> acks_wf ids a"
        using a1 ab(2) by (simp add: s2_def)
      moreover have "\<forall>ids. acks_wf ids (pendingAcks s) \<longrightarrow> acks_wf ids b"
        using b1 ab(3) by (simp add: s2_def)
      ultimately show ?thesis by blast
    qed
  qed
qed

lemma sendCommands_frame:
  "\<exists>a b. snd (sendCommands t s) = s\<lparr>acksToSend := a, pendingAcks := b\<rparr> \<and>
     (\<forall>ids. acks_wf ids (acksToSend s) \<longrightarrow> acks_wf ids a) \<and>
     (\<forall>ids. acks_wf ids (pendingAcks s) \<longrightarrow> acks_wf ids b)"
  unfolding sendCommands_def by (rule sendCommands_loop_frame)

lemma nextTick_frame:
  "\<exists>a b. snd (nextTick s) =
     s\<lparr>commandQueue := [],
       tickCommandsMap :=
         (addCommandsForPlayer (tick s + int (commandDelay s)) (playerId s)
            (Array (if commandQueue s = [] then [Noop (playerId s)] else commandQueue s))
            (tickCommandsMap s))(tick s - int (commandDelay s) - 1 := None),
       acksToSend := a, pendingAcks := b, tick := tick s + 1\<rparr> \<and>
     (\<forall>ids. acks_wf ids (acksToSend s) \<longrightarrow> acks_wf ids a) \<and>
     (\<forall>ids. acks_wf ids (pendingAcks s) \<longrightarrow> acks_wf ids b)"
proof -
  define s1 where "s1 = scheduleEnqueuedCommands (tick s + int (commandDelay s)) s"
  from sendCommands_frame [of "tick s1 + int (commandDelay s1)" s1] obtain a b where
    ab: "snd (sendCommands (tick s1 + int (commandDelay s1)) s1) = s1\<lparr>acksToSend := a, pendingAcks := b\<rparr>"
      "\<forall>ids. acks_wf ids (acksToSend s1) \<longrightarrow> acks_wf ids a"
      "\<forall>ids. acks_wf ids (pendingAcks s1) \<longrightarrow> acks_wf ids b"
    by blast
  have "snd (nextTick s) =
     s\<lparr>commandQueue := [],
       tickCommandsMap :=
         (addCommandsForPlayer (tick s + int (commandDelay s)) (playerId s)
            (Array (if commandQueue s = [] then [Noop (playerId s)] else commandQueue s))
            (tickCommandsMap s))(tick s - int (commandDelay s) - 1 := None),
       acksToSend := a, pendingAcks := b, tick := tick s + 1\<rparr>"
    using ab(1) by (simp add: nextTick_def Let_def s1_def [symmetric])
      (simp add: s1_def scheduleEnqueuedCommands_def)
  moreover have "\<forall>ids. acks_wf ids (acksToSend s) \<longrightarrow> acks_wf ids a"
    using ab(2) by (simp add: s1_def scheduleEnqueuedCommands_def)
  moreover have "\<forall>ids. acks_wf ids (pendingAcks s) \<longrightarrow> acks_wf ids b"
    using ab(3) by (simp add: s1_def scheduleEnqueuedCommands_def)
  ultimately show ?thesis by blast
qed



subsection \<open>The invariants hold in every state\<close>

lemma fold_upd_const:
  "fold (\<lambda>p a. a(p \<mapsto> f p)) ids a0 q = (if q \<in> set ids then Some (f q) else a0 q)"
  by (induction ids arbitrary: a0) auto

lemma init_acks_apply: "init_acks ids p = (if p \<in> set ids then Some [] else None)"
  unfolding init_acks_def by (simp add: fold_upd_const [where f = "\<lambda>_. []"])

lemma init_tick_commands_apply:
  "init_tick_commands ids p = (if p \<in> set ids then Some [Noop p] else None)"
  unfolding init_tick_commands_def by (simp add: fold_upd_const [where f = "\<lambda>p. [Noop p]"])

lemma initTickCommandsMap_apply:
  "initTickCommandsMap delay ids m t =
     (if 0 \<le> t \<and> t < int delay then Some (init_tick_commands ids) else m t)"
proof -
  have "fold (\<lambda>t m'. m'(int t \<mapsto> v)) [0..<n] m t = (if 0 \<le> t \<and> t < int n then Some v else m t)"
    for n v
    by (induction n) auto
  then show ?thesis by (simp add: initTickCommandsMap_def)
qed

lemma set_js_sort [simp]: "set (js_sort ids) = set ids"
  by (simp add: js_sort_def)

lemma length_js_sort [simp]: "length (js_sort ids) = length ids"
  by (simp add: js_sort_def)

lemma constructor_inv: "manager_inv (constructor pid others delay t0)"
  by (auto simp: manager_inv_def constructor_def acks_wf_def init_acks_apply keys_within_def
      lists_nonempty_def initTickCommandsMap_apply init_tick_commands_apply dom_def
      split: if_splits)

lemma constructor_pruned: "t0 \<le> int delay + 1 \<Longrightarrow> pruned (constructor pid others delay t0)"
  by (auto simp: pruned_def ticks_from_def constructor_def initTickCommandsMap_apply split: if_splits)

lemma enqueueCommand_inv: "manager_inv s \<Longrightarrow> manager_inv (enqueueCommand c s)"
  by (simp add: manager_inv_def enqueueCommand_def)

lemma enqueueCommand_pruned: "pruned s \<Longrightarrow> pruned (enqueueCommand c s)"
  by (simp add: pruned_def enqueueCommand_def)

lemma sendCommands_inv: "manager_inv s \<Longrightarrow> manager_inv (snd (sendCommands t s))"
proof -
  assume inv: "manager_inv s"
  from sendCommands_frame [of t s] obtain a b where
    ab: "snd (sendCommands t s) = s\<lparr>acksToSend := a, pendingAcks := b\<rparr>"
      "\<forall>ids. acks_wf ids (acksToSend s) \<longrightarrow> acks_wf ids a"
      "\<forall>ids. acks_wf ids (pendingAcks s) \<longrightarrow> acks_wf ids b"
    by blast
  show ?thesis using inv ab(2,3) unfolding ab(1) by (simp add: manager_inv_def)
qed

lemma sendCommands_pruned: "pruned s \<Longrightarrow> pruned (snd (sendCommands t s))"
proof -
  assume inv: "pruned s"
  from sendCommands_frame [of t s] obtain a b where
    ab: "snd (sendCommands t s) = s\<lparr>acksToSend := a, pendingAcks := b\<rparr>"
    by blast
  show ?thesis using inv unfolding ab(1) by (simp add: pruned_def)
qed

lemma keys_within_delete: "keys_within K m \<Longrightarrow> keys_within K (m(t := None))"
  by (auto simp: keys_within_def)

lemma lists_nonempty_delete: "lists_nonempty m \<Longrightarrow> lists_nonempty (m(t := None))"
  by (auto simp: lists_nonempty_def)

lemma nextTick_inv: "manager_inv s \<Longrightarrow> manager_inv (snd (nextTick s))"
proof -
  assume inv: "manager_inv s"
  from nextTick_frame [of s] obtain a b where
    ab: "snd (nextTick s) =
     s\<lparr>commandQueue := [],
       tickCommandsMap :=
         (addCommandsForPlayer (tick s + int (commandDelay s)) (playerId s)
            (Array (if commandQueue s = [] then [Noop (playerId s)] else commandQueue s))
            (tickCommandsMap s))(tick s - int (commandDelay s) - 1 := None),
       acksToSend := a, pendingAcks := b, tick := tick s + 1\<rparr>"
      "\<forall>ids. acks_wf ids (acksToSend s) \<longrightarrow> acks_wf ids a"
      "\<forall>ids. acks_wf ids (pendingAcks s) \<longrightarrow> acks_wf ids b"
    by blast
  show ?thesis using inv ab(2,3) unfolding ab(1)
    by (simp add: manager_inv_def keys_within_delete lists_nonempty_delete add_keys_within
        add_lists_nonempty)
qed

lemma nextTick_pruned: "pruned s \<Longrightarrow> pruned (snd (nextTick s))"
proof -
  assume inv: "pruned s"
  from nextTick_frame [of s] obtain a b where
    ab: "snd (nextTick s) =
     s\<lparr>commandQueue := [],
       tickCommandsMap :=
         (addCommandsForPlayer (tick s + int (commandDelay s)) (playerId s)
            (Array (if commandQueue s = [] then [Noop (playerId s)] else commandQueue s))
            (tickCommandsMap s))(tick s - int (commandDelay s) - 1 := None),
       acksToSend := a, pendingAcks := b, tick := tick s + 1\<rparr>"
    by blast
  have "ticks_from (tick s - int (commandDelay s) - 1)
      (addCommandsForPlayer (tick s + int (commandDelay s)) (playerId s)
        (Array (if commandQueue s = [] then [Noop (playerId s)] else commandQueue s))
        (tickCommandsMap s))"
    using inv by (intro add_ticks_from) (simp_all add: pruned_def)
  then show ?thesis unfolding ab(1)
    by (fastforce simp: pruned_def ticks_from_def)
qed

lemma receive_inv: "manager_inv s \<Longrightarrow> manager_inv (receive s msg)"
proof -
  assume inv: "manager_inv s"
  let ?p = "msg_playerId msg"
  from receive_cases [of msg s] obtain es a b r where
    r: "receive s msg =
       s\<lparr>tickCommandsMap := store ?p (tick s) es (tickCommandsMap s),
         acksToSend := a, pendingAcks := b, receiving := r\<rparr>"
      "r \<longrightarrow> receiving s"
      "r \<longrightarrow> es = [] \<or> acksToSend s ?p \<noteq> None"
      "\<forall>ids. acks_wf ids (acksToSend s) \<longrightarrow> acks_wf ids a"
      "\<forall>ids. acks_wf ids (pendingAcks s) \<longrightarrow> acks_wf ids b"
    by blast
  have keys: "keys_within (insert (playerId s) (set (otherPlayerIds s)))
      (store ?p (tick s) es (tickCommandsMap s))" if r
  proof (cases "es = []")
    case True
    then show ?thesis using inv r(2) that by (simp add: manager_inv_def)
  next
    case False
    with r(3) that have "acksToSend s ?p \<noteq> None" by simp
    then have "?p \<in> set (otherPlayerIds s)"
      using inv by (auto simp: manager_inv_def acks_wf_def)
    then show ?thesis using inv r(2) that
      by (intro store_keys_within) (simp_all add: manager_inv_def)
  qed
  show ?thesis using inv r(4,5) keys unfolding r(1)
    by (simp add: manager_inv_def store_lists_nonempty)
qed

lemma receive_pruned: "pruned s \<Longrightarrow> pruned (receive s msg)"
proof -
  assume inv: "pruned s"
  from receive_cases [of msg s] obtain es a b r where
    r: "receive s msg =
       s\<lparr>tickCommandsMap := store (msg_playerId msg) (tick s) es (tickCommandsMap s),
         acksToSend := a, pendingAcks := b, receiving := r\<rparr>"
    by blast
  show ?thesis using inv unfolding r(1)
    by (simp add: pruned_def store_ticks_from)
qed

lemma reachable_inv: "reachable s0 s \<Longrightarrow> manager_inv s0 \<Longrightarrow> manager_inv s"
  by (induction rule: reachable.induct)
    (simp_all add: enqueueCommand_inv nextTick_inv sendCommands_inv receive_inv)

lemma reachable_pruned: "reachable s0 s \<Longrightarrow> pruned s0 \<Longrightarrow> pruned s"
  by (induction rule: reachable.induct)
    (simp_all add: enqueueCommand_pruned nextTick_pruned sendCommands_pruned receive_pruned)

lemma reachable_config:
  "reachable s0 s \<Longrightarrow>
   sortedPlayerIds s = sortedPlayerIds s0 \<and> commandDelay s = commandDelay s0 \<and>
   playerId s = playerId s0 \<and> otherPlayerIds s = otherPlayerIds s0"
proof (induction rule: reachable.induct)
  case start
  show ?case by simp
next
  case (enqueue s c)
  then show ?case by (simp add: enqueueCommand_def)
next
  case (next_tick s)
  from nextTick_frame [of s] obtain a b where
    "snd (nextTick s) =
     s\<lparr>commandQueue := [],
       tickCommandsMap :=
         (addCommandsForPlayer (tick s + int (commandDelay s)) (playerId s)
            (Array (if commandQueue s = [] then [Noop (playerId s)] else commandQueue s))
            (tickCommandsMap s))(tick s - int (commandDelay s) - 1 := None),
       acksToSend := a, pendingAcks := b, tick := tick s + 1\<rparr>"
    by blast
  with next_tick.IH show ?case by simp
next
  case (resend s)
  from sendCommands_frame [of "tick s + int (commandDelay s) - 1" s] obtain a b where
    "snd (sendCommands (tick s + int (commandDelay s) - 1) s) = s\<lparr>acksToSend := a, pendingAcks := b\<rparr>"
    by blast
  with resend.IH show ?case by simp
next
  case (received s msg)
  from receive_cases [of msg s] obtain es a b r where
    "receive s msg =
       s\<lparr>tickCommandsMap := store (msg_playerId msg) (tick s) es (tickCommandsMap s),
         acksToSend := a, pendingAcks := b, receiving := r\<rparr>"
    by blast
  with received.IH show ?case by simp
qed



subsection \<open>Waiting\<close>

lemma reachable_fold_receive:
  "reachable s0 s \<Longrightarrow> reachable s0 (fold (\<lambda>msg s'. receive s' msg) msgs s)"
  by (induction msgs arbitrary: s) (simp_all add: reachable.received)

lemma waitForTick_returns:
  "waitForTick t arrivals s = Some r \<Longrightarrow> reachable s0 s \<Longrightarrow>
   isTickReady (snd r) t \<and> reachable s0 (snd r)"
proof (induction arrivals arbitrary: s r)
  case Nil
  then show ?case by (auto split: if_splits)
next
  case (Cons msgs later)
  show ?case
  proof (cases "isTickReady s t")
    case True
    with Cons.prems show ?thesis by auto
  next
    case False
    define s1 where "s1 = fold (\<lambda>msg s'. receive s' msg) msgs
      (snd (sendCommands (tick s + int (commandDelay s) - 1) s))"
    from Cons.prems(1) False obtain r' where
      r': "waitForTick t later s1 = Some r'" and r: "snd r = snd r'"
      by (auto simp: Let_def s1_def)
    have "reachable s0 s1"
      unfolding s1_def using Cons.prems(2)
      by (intro reachable_fold_receive reachable.resend)
    with Cons.IH [OF r'] r show ?thesis by simp
  qed
qed

lemma ready_all_present:
  assumes "manager_inv s" "receiving s" "isTickReady s t"
  shows "\<exists>tc. tickCommandsMap s t = Some tc \<and> dom tc = insert (playerId s) (set (otherPlayerIds s))"
proof -
  let ?K = "insert (playerId s) (set (otherPlayerIds s))"
  from assms(3) obtain tc where
    tc: "tickCommandsMap s t = Some tc" and c: "card (dom tc) = length (sortedPlayerIds s)"
    by (auto simp: isTickReady_def split: option.splits)
  have sub: "dom tc \<subseteq> ?K"
    using assms(1,2) tc by (auto simp: manager_inv_def keys_within_def)
  have "length (sortedPlayerIds s) = length (playerId s # otherPlayerIds s)"
    using assms(1) by (simp add: manager_inv_def)
  moreover have "card ?K \<le> length (playerId s # otherPlayerIds s)"
    using card_length [of "playerId s # otherPlayerIds s"] by simp
  ultimately have "card ?K \<le> card (dom tc)"
    using c by simp
  with sub have "dom tc = ?K"
    by (intro card_seteq) simp_all
  with tc show ?thesis by simp
qed


subsection \<open>The same message again\<close>

lemma set_object_entries [simp]: "set (object_entries al) = set al"
  by (auto simp: object_entries_def)

lemma store_empty_payloads:
  "\<forall>e \<in> set es. snd e = [] \<or> fst e < T \<Longrightarrow> store p T es m = m"
  by (induction es arbitrary: m) (auto simp: addCommandsForPlayer_def)

lemma store_keeps_entry: "has_entry m t q \<Longrightarrow> has_entry (store p T es m) t q"
  by (induction es arbitrary: m) (simp_all add: add_keeps_entry)

lemma store_has_entry:
  "e \<in> set es \<Longrightarrow> T \<le> fst e \<Longrightarrow> snd e \<noteq> [] \<Longrightarrow> has_entry (store p T es m) (fst e) p"
proof (induction es arbitrary: m)
  case Nil
  then show ?case by simp
next
  case (Cons a es)
  show ?case
  proof (cases "e = a")
    case True
    with Cons.prems show ?thesis
      by (simp add: store_keeps_entry add_has_entry)
  next
    case False
    with Cons.prems have "e \<in> set es" by simp
    from Cons.IH [OF this Cons.prems(2,3)] show ?thesis by simp
  qed
qed

lemma store_absorbed:
  "\<forall>e \<in> set es. T \<le> fst e \<and> snd e \<noteq> [] \<longrightarrow> has_entry m (fst e) p \<Longrightarrow> store p T es m = m"
proof (induction es arbitrary: m)
  case Nil
  then show ?case by simp
next
  case (Cons a es)
  have "addCommandsForPlayer (fst a) p (Array (snd a)) m = m" if "T \<le> fst a"
  proof (cases "snd a = []")
    case True
    then show ?thesis by (simp add: addCommandsForPlayer_def)
  next
    case False
    with Cons.prems that have "has_entry m (fst a) p" by simp
    then show ?thesis by (rule add_present)
  qed
  with Cons show ?case by simp
qed

lemma store_twice:
  "set es' \<subseteq> set es \<Longrightarrow> store p T es' (store p T es m) = store p T es m"
  by (rule store_absorbed) (auto intro: store_has_entry)

lemma receive_acks_map [simp]:
  "tickCommandsMap (receive_acks p ts s) = tickCommandsMap s"
  by (induction ts arbitrary: s) (simp_all split: option.splits)

lemma receive_acks_tick [simp]: "tick (receive_acks p ts s) = tick s"
  by (induction ts arbitrary: s) (simp_all split: option.splits)

lemma receive_tick [simp]: "tick (receive s msg) = tick s"
proof -
  from receive_cases [of msg s] obtain es a b r where
    "receive s msg =
       s\<lparr>tickCommandsMap := store (msg_playerId msg) (tick s) es (tickCommandsMap s),
         acksToSend := a, pendingAcks := b, receiving := r\<rparr>"
    by blast
  then show ?thesis by simp
qed

lemma receive_twice_map:
  "tickCommandsMap (receive (receive s msg) msg) = tickCommandsMap (receive s msg)"
proof -
  let ?p = "msg_playerId msg"
  let ?es = "object_entries (msg_commands msg)"
  let ?s1 = "receive s msg"
  from receive_cases [of msg ?s1] obtain es1 a b r where
    second: "receive ?s1 msg =
       ?s1\<lparr>tickCommandsMap := store ?p (tick ?s1) es1 (tickCommandsMap ?s1),
         acksToSend := a, pendingAcks := b, receiving := r\<rparr>"
      and sub: "set es1 \<subseteq> set ?es"
    by blast
  show ?thesis
  proof (cases "receiving ?s1")
    case False
    then show ?thesis by (simp add: receive_def [of ?s1])
  next
    case True
    then have alive: "receiving s"
      by (auto simp: receive_def split: if_splits)
    show ?thesis
    proof (cases "acksToSend s ?p")
      case None
      have "?es = []"
      proof (rule ccontr)
        assume "?es \<noteq> []"
        then obtain e es' where "?es = e # es'" by (cases ?es) auto
        with None alive have "\<not> receiving ?s1"
          by (simp add: receive_def receive_entries_unknown)
        with True show False by simp
      qed
      with sub have "es1 = []" by simp
      with second show ?thesis by simp
    next
      case (Some toSend)
      have "tickCommandsMap ?s1 = store ?p (tick s) ?es (tickCommandsMap s)"
        using alive by (simp add: receive_def Let_def receive_entries_known [OF Some])
      with second sub show ?thesis by (simp add: store_twice)
    qed
  qed
qed

subsection \<open>The acks of a message that is sent\<close>





subsection \<open>The order of the players and of the arrivals\<close>

lemma getAllCommands_concat:
  "getAllCommands s t =
     concat (map (getCommandsForPlayer (tickCommandsMap s) t) (sortedPlayerIds s))"
proof (cases "tickCommandsMap s t")
  case None
  have "concat (map (\<lambda>p. []) ids) = ([] :: 'a command list)" for ids :: "nat list"
    by (induction ids) simp_all
  with None show ?thesis
    by (simp add: getAllCommands_def getCommandsForPlayer_def)
next
  case (Some tc)
  then have "getCommandsForPlayer (tickCommandsMap s) t =
      (\<lambda>p. case tc p of None \<Rightarrow> [] | Some cs \<Rightarrow> cs)"
    by (simp add: getCommandsForPlayer_def fun_eq_iff)
  with Some show ?thesis
    by (simp add: getAllCommands_def)
qed

lemma js_to_string_digit: "n < 10 \<Longrightarrow> js_to_string n = [char_of (48 + n)]"
  by (simp add: js_to_string.simps)

lemma of_char_digit: "n < 10 \<Longrightarrow> (of_char (char_of (48 + n :: nat)) :: nat) = 48 + n"
  by simp

lemma js_to_string_digit_le:
  assumes "a < 10" "b < 10"
  shows "(js_to_string a \<le> js_to_string b) = (a \<le> b)"
proof -
  have "(char_of (48 + a) \<le> char_of (48 + b)) = (48 + a \<le> 48 + b)"
    using assms by (simp add: less_eq_char_def)
  moreover have "(char_of (48 + a) = char_of (48 + b)) = (a = b)"
    using assms by (metis of_char_digit add_left_cancel)
  ultimately show ?thesis
    using assms by (auto simp: js_to_string_digit less_le)
qed

lemma insort_key_embedding:
  "\<forall>b \<in> set bs. (f a \<le> f b) = (a \<le> b) \<Longrightarrow> insort_key f a bs = insort a bs"
  by (induction bs) simp_all

lemma sort_key_embedding:
  "\<forall>a \<in> set as. \<forall>b \<in> set as. (f a \<le> f b) = (a \<le> b) \<Longrightarrow> sort_key f as = sort as"
proof (induction as)
  case Nil
  show ?case by simp
next
  case (Cons a as)
  then have "sort_key f as = sort as" by simp
  moreover have "insort_key f a (sort as) = insort a (sort as)"
    using Cons.prems by (intro insort_key_embedding) simp
  ultimately show ?case by simp
qed

lemma js_sort_digits: "\<forall>p \<in> set ids. p < 10 \<Longrightarrow> js_sort ids = sort ids"
  unfolding js_sort_def by (rule sort_key_embedding) (simp add: js_to_string_digit_le)

lemma add_store_commute:
  "p \<noteq> q \<Longrightarrow>
   addCommandsForPlayer t p c (store q T es m) = store q T es (addCommandsForPlayer t p c m)"
  by (induction es arbitrary: m) (simp_all add: add_commute)

lemma store_commute:
  "p \<noteq> q \<Longrightarrow> store p T es (store q T es' m) = store q T es' (store p T es m)"
  by (induction es arbitrary: m) (simp_all add: add_store_commute)

lemma receive_commute:
  assumes alive: "receiving s"
    and m1: "acksToSend s (msg_playerId m1) = Some a1" "pendingAcks s (msg_playerId m1) = Some b1"
    and m2: "acksToSend s (msg_playerId m2) = Some a2" "pendingAcks s (msg_playerId m2) = Some b2"
    and ne: "msg_playerId m1 \<noteq> msg_playerId m2"
  shows "receive (receive s m1) m2 = receive (receive s m2) m1"
proof -
  let ?p1 = "msg_playerId m1" and ?p2 = "msg_playerId m2"
  let ?e1 = "object_entries (msg_commands m1)" and ?e2 = "object_entries (msg_commands m2)"
  let ?A1 = "fold set_add (map fst ?e1) a1" and ?A2 = "fold set_add (map fst ?e2) a2"
  let ?B1 = "fold set_delete (msg_acks m1) b1" and ?B2 = "fold set_delete (msg_acks m2) b2"
  have s1: "receive s m1 = s\<lparr>tickCommandsMap := store ?p1 (tick s) ?e1 (tickCommandsMap s),
      acksToSend := (acksToSend s)(?p1 \<mapsto> ?A1), pendingAcks := (pendingAcks s)(?p1 \<mapsto> ?B1)\<rparr>"
    using alive m1 by (rule receive_known)
  have s2: "receive s m2 = s\<lparr>tickCommandsMap := store ?p2 (tick s) ?e2 (tickCommandsMap s),
      acksToSend := (acksToSend s)(?p2 \<mapsto> ?A2), pendingAcks := (pendingAcks s)(?p2 \<mapsto> ?B2)\<rparr>"
    using alive m2 by (rule receive_known)
  have "receive (receive s m1) m2 =
      s\<lparr>tickCommandsMap := store ?p2 (tick s) ?e2 (store ?p1 (tick s) ?e1 (tickCommandsMap s)),
        acksToSend := (acksToSend s)(?p1 \<mapsto> ?A1, ?p2 \<mapsto> ?A2),
        pendingAcks := (pendingAcks s)(?p1 \<mapsto> ?B1, ?p2 \<mapsto> ?B2)\<rparr>"
    using alive m2 ne by (subst receive_known [where toSend = a2 and pending = b2]) (simp_all add: s1)
  moreover have "receive (receive s m2) m1 =
      s\<lparr>tickCommandsMap := store ?p1 (tick s) ?e1 (store ?p2 (tick s) ?e2 (tickCommandsMap s)),
        acksToSend := (acksToSend s)(?p2 \<mapsto> ?A2, ?p1 \<mapsto> ?A1),
        pendingAcks := (pendingAcks s)(?p2 \<mapsto> ?B2, ?p1 \<mapsto> ?B1)\<rparr>"
    using alive m1 ne by (subst receive_known [where toSend = a1 and pending = b1]) (simp_all add: s2)
  ultimately show ?thesis
    using ne by (simp add: store_commute [of ?p1 ?p2] fun_upd_twist [of ?p1 ?p2])
qed


subsection \<open>The examples, evaluated\<close>

lemma js_sort_01: "js_sort [0, Suc 0] = [0, Suc 0]" by code_simp

lemma two_players_eq:
  "two_players =
     \<lparr> sortedPlayerIds = [0, 1], commandDelay = 1, playerId = 0, otherPlayerIds = [1],
       commandQueue = [],
       tickCommandsMap = [0 \<mapsto> [0 \<mapsto> [Noop 0], 1 \<mapsto> [Noop 1]]],
       acksToSend = [1 \<mapsto> []], pendingAcks = [1 \<mapsto> []], tick = 0, receiving = True \<rparr>"
  by (simp add: two_players_def constructor_def js_sort_01 initTickCommandsMap_def
      init_tick_commands_def init_acks_def)

lemma two_players_next:
  "snd (nextTick two_players) =
     \<lparr> sortedPlayerIds = [0, 1], commandDelay = 1, playerId = 0, otherPlayerIds = [1],
       commandQueue = [],
       tickCommandsMap = [0 \<mapsto> [0 \<mapsto> [Noop 0], 1 \<mapsto> [Noop 1]], 1 \<mapsto> [0 \<mapsto> [Noop 0]]],
       acksToSend = [1 \<mapsto> []], pendingAcks = [1 \<mapsto> [1]], tick = 1, receiving = True \<rparr>"
  by (simp add: two_players_eq nextTick_def scheduleEnqueuedCommands_def sendCommands_def
      Let_def addCommandsForPlayer_def getCommandsForPlayer_def set_add_def)

lemma two_players_wait:
  "map_option snd (waitForTick 1 [[msg_tick1]] (snd (nextTick two_players))) =
     Some \<lparr> sortedPlayerIds = [0, 1], commandDelay = 1, playerId = 0, otherPlayerIds = [1],
       commandQueue = [],
       tickCommandsMap = [0 \<mapsto> [0 \<mapsto> [Noop 0], 1 \<mapsto> [Noop 1]],
                          1 \<mapsto> [0 \<mapsto> [Noop 0], 1 \<mapsto> [Noop 1]]],
       acksToSend = [1 \<mapsto> [1]], pendingAcks = [1 \<mapsto> []], tick = 1, receiving = True \<rparr>"
  apply (simp add: two_players_next isTickReady_def)
  apply (simp add: sendCommands_def Let_def getCommandsForPlayer_def set_add_def)
  apply (simp add: receive_def msg_tick1_def object_entries_def Let_def addCommandsForPlayer_def set_add_def set_delete_def isTickReady_def)
  done


lemma js_sort_012: "js_sort [0, Suc 0, 2] = [0, Suc 0, 2]" by code_simp

lemma js_sort_2_10: "js_sort [2, 10] = [10, 2]" by code_simp

lemma three_players_next:
  "snd (nextTick three_players) =
     \<lparr> sortedPlayerIds = [0, 1, 2], commandDelay = 1, playerId = 0, otherPlayerIds = [1, 2],
       commandQueue = [],
       tickCommandsMap = [0 \<mapsto> [0 \<mapsto> [Noop 0], 1 \<mapsto> [Noop 1], 2 \<mapsto> [Noop 2]],
                          1 \<mapsto> [0 \<mapsto> [Noop 0]]],
       acksToSend = [1 \<mapsto> [], 2 \<mapsto> []], pendingAcks = [1 \<mapsto> [1], 2 \<mapsto> [1]],
       tick = 1, receiving = True \<rparr>"
  by (simp add: three_players_def constructor_def js_sort_012 initTickCommandsMap_def
      init_tick_commands_def init_acks_def nextTick_def scheduleEnqueuedCommands_def
      sendCommands_def Let_def addCommandsForPlayer_def getCommandsForPlayer_def set_add_def)

lemma three_players_received:
  "getAllCommands (receive (receive (snd (nextTick three_players)) msg_of_2) msg_of_1) 1 =
     [Noop 0, Noop 1, Move 2 2 \<lparr> x = 120, y = 80 \<rparr>]"
  by (simp add: three_players_next receive_def msg_of_1_def msg_of_2_def object_entries_def
      Let_def addCommandsForPlayer_def set_add_def getAllCommands_def)


section \<open>Properties of the command manager\<close>

text \<open>
  C8. A manager constructed at a tick that is at most \<open>commandDelay + 1\<close> (the game
  constructs it at tick 0) never holds an entry for a tick older than
  \<open>tick - commandDelay - 1\<close>, whatever the game loop and the receive task have done: the
  receive task stores nothing below the current tick, scheduling writes at
  \<open>tick + commandDelay\<close>, a resend does not touch the map, and \<^verbatim>\<open>nextTick\<close> deletes the
  entry of \<open>tick - commandDelay - 1\<close> before it increments the tick, which is the one entry
  that the new bound excludes.
\<close>

theorem old_ticks_are_pruned:
  "t0 \<le> int delay + 1 \<Longrightarrow> reachable (constructor pid others delay t0) s \<Longrightarrow>
   (\<forall>t. tickCommandsMap s t \<noteq> None \<longrightarrow> tick s - int (commandDelay s) - 1 \<le> t) \<and>
   tick (snd (nextTick s)) = tick s + 1 \<and>
   tickCommandsMap (snd (nextTick s)) (tick s - int (commandDelay s) - 1) = None \<and>
   (\<forall>t. tickCommandsMap (snd (nextTick s)) t \<noteq> None \<longrightarrow>
        tick (snd (nextTick s)) - int (commandDelay s) - 1 \<le> t)"
proof -
  assume t0: "t0 \<le> int delay + 1" and r: "reachable (constructor pid others delay t0) s"
  from r have p: "pruned s"
    by (rule reachable_pruned) (rule constructor_pruned [OF t0])
  then have p': "pruned (snd (nextTick s))"
    by (rule nextTick_pruned)
  from nextTick_frame [of s] obtain a b where
    ab: "snd (nextTick s) =
     s\<lparr>commandQueue := [],
       tickCommandsMap :=
         (addCommandsForPlayer (tick s + int (commandDelay s)) (playerId s)
            (Array (if commandQueue s = [] then [Noop (playerId s)] else commandQueue s))
            (tickCommandsMap s))(tick s - int (commandDelay s) - 1 := None),
       acksToSend := a, pendingAcks := b, tick := tick s + 1\<rparr>"
    by blast
  have "commandDelay (snd (nextTick s)) = commandDelay s"
    unfolding ab by simp
  with p p' show ?thesis
    unfolding pruned_def ticks_from_def by (simp add: ab)
qed

text \<open>
  With a delay of 1 the entry of tick 0 is there after the first \<^verbatim>\<open>nextTick\<close> and gone
  after the third, which runs at tick 2.
\<close>

theorem old_ticks_are_pruned_witness:
  "tickCommandsMap (snd (nextTick two_players)) 0 \<noteq> None \<and>
   tick (snd (nextTick (snd (nextTick two_players)))) = 2 \<and>
   tickCommandsMap (snd (nextTick (snd (nextTick (snd (nextTick two_players)))))) 0 = None"
proof -
  let ?c = "constructor 0 [1] 1 0 :: rat command_manager"
  let ?s1 = "snd (nextTick ?c)"
  let ?s2 = "snd (nextTick ?s1)"
  have t0: "(0::int) \<le> int 1 + 1" by simp
  have r0: "reachable ?c ?c" by (rule reachable.start)
  then have r1: "reachable ?c ?s1" by (rule reachable.next_tick)
  then have r2: "reachable ?c ?s2" by (rule reachable.next_tick)
  have d: "commandDelay ?s2 = 1"
    using reachable_config [OF r2] by (simp add: constructor_def)
  have "tick ?s1 = 1"
    using old_ticks_are_pruned [OF t0 r0] by (simp add: constructor_def)
  then have t2: "tick ?s2 = 2"
    using old_ticks_are_pruned [OF t0 r1] by simp
  then have "tickCommandsMap (snd (nextTick ?s2)) 0 = None"
    using old_ticks_are_pruned [OF t0 r2] d by simp
  moreover have "tickCommandsMap ?s1 0 \<noteq> None"
    using two_players_next by (simp add: two_players_def)
  ultimately show ?thesis using t2 by (simp add: two_players_def)
qed

text \<open>
  Without the bound on the tick of construction the map holds older entries from the
  start: the constructor fills the ticks \<open>0, \<dots>, commandDelay - 1\<close> whatever the tick it
  is given. A manager with a delay of 3 constructed at tick 5 has an entry for tick 0,
  which is older than \<open>5 - 3 - 1 = 1\<close>, and still has it after \<^verbatim>\<open>nextTick\<close>, which deletes
  the entry of tick 1 only.
\<close>

theorem late_start_keeps_old_ticks:
  "tickCommandsMap late_start 0 \<noteq> None \<and>
   tick late_start - int (commandDelay late_start) - 1 = 1 \<and>
   tickCommandsMap (snd (nextTick late_start)) 0 \<noteq> None \<and>
   tick (snd (nextTick late_start)) - int (commandDelay (snd (nextTick late_start))) - 1 = 2"
proof -
  have a: "tickCommandsMap late_start 0 \<noteq> None"
    by (simp add: late_start_def constructor_def initTickCommandsMap_apply)
  have b: "tick late_start = 5" "commandDelay late_start = 3"
    by (simp_all add: late_start_def constructor_def)
  from nextTick_frame [of late_start] obtain a' b' where
    ab: "snd (nextTick late_start) =
     late_start\<lparr>commandQueue := [],
       tickCommandsMap :=
         (addCommandsForPlayer (tick late_start + int (commandDelay late_start))
            (playerId late_start)
            (Array (if commandQueue late_start = [] then [Noop (playerId late_start)]
                    else commandQueue late_start))
            (tickCommandsMap late_start))
           (tick late_start - int (commandDelay late_start) - 1 := None),
       acksToSend := a', pendingAcks := b', tick := tick late_start + 1\<rparr>"
    by blast
  have c: "tickCommandsMap (snd (nextTick late_start)) 0 \<noteq> None"
    unfolding ab using a by (simp add: b add_other_tick)
  have d: "tick (snd (nextTick late_start)) = 6" "commandDelay (snd (nextTick late_start)) = 3"
    unfolding ab by (simp_all add: b)
  from a b c d show ?thesis by simp
qed

text \<open>
  \<^verbatim>\<open>waitForTick(t)\<close> returns when \<^verbatim>\<open>isTickReady(t)\<close> holds, which compares the
  number of entries of the tick with the number of player ids. In every state of a manager
  whose receive task is running, the entries of a tick belong to known players, so the
  count is reached only when every known player has an entry: whatever was enqueued,
  sent again or received before and during the wait, in whatever order, a return of
  \<^verbatim>\<open>waitForTick(t)\<close> with the receive task running finds an entry at tick \<open>t\<close> for each
  of the sorted player ids. The receive task stops running at a message whose sender has
  no ack set, that is, a sender that is not one of the other players: the exception comes
  after the commands of the first entry of that message were stored.
\<close>

lemma waitForTick_all_present_while_receiving:
  "reachable (constructor pid others delay t0) s \<Longrightarrow>
   waitForTick t arrivals s = Some (sent, s') \<Longrightarrow> receiving s' \<Longrightarrow>
   set (sortedPlayerIds s') = insert pid (set others) \<and>
   (\<exists>tickCommands. tickCommandsMap s' t = Some tickCommands \<and>
      (\<forall>p \<in> set (sortedPlayerIds s'). tickCommands p \<noteq> None))"
proof -
  assume r: "reachable (constructor pid others delay t0) s"
    and w: "waitForTick t arrivals s = Some (sent, s')" and alive: "receiving s'"
  from waitForTick_returns [OF w r] have
    ready: "isTickReady s' t" and r': "reachable (constructor pid others delay t0) s'"
    by simp_all
  from r' have inv: "manager_inv s'"
    by (rule reachable_inv) (rule constructor_inv)
  from reachable_config [OF r'] have
    cfg: "sortedPlayerIds s' = js_sort (pid # others)" "playerId s' = pid" "otherPlayerIds s' = others"
    by (simp_all add: constructor_def)
  from ready_all_present [OF inv alive ready] obtain tc where
    tc: "tickCommandsMap s' t = Some tc" "dom tc = insert pid (set others)"
    by (auto simp: cfg)
  have "\<forall>p \<in> set (sortedPlayerIds s'). tc p \<noteq> None"
    using tc(2) by (auto simp: cfg)
  with tc(1) show ?thesis by (simp add: cfg)
qed


text \<open>
  Player 0 has scheduled its commands of tick 1 and waits for that tick; the message of
  player 1 arrives during the first sleep, and the wait returns after it.
\<close>

lemma waitForTick_all_present_example:
  "(\<exists>sent s'. waitForTick 1 [[msg_tick1]] (snd (nextTick two_players)) = Some (sent, s') \<and>
      receiving s' \<and> set (sortedPlayerIds s') = {0, 1} \<and>
      (\<exists>tickCommands. tickCommandsMap s' 1 = Some tickCommands \<and>
         tickCommands 0 \<noteq> None \<and> tickCommands 1 \<noteq> None)) \<and>
   waitForTick 1 [[]] (snd (nextTick two_players)) = None"
proof -
  let ?c = "constructor 0 [1] 1 0 :: rat command_manager"
  let ?s1 = "snd (nextTick ?c)"
  have r: "reachable ?c ?s1"
    by (intro reachable.next_tick reachable.start)
  from two_players_wait obtain sent s' where
    w: "waitForTick 1 [[msg_tick1]] ?s1 = Some (sent, s')" and alive: "receiving s'"
    by (auto simp: two_players_def)
  from waitForTick_all_present_while_receiving [OF r w alive]
  have "set (sortedPlayerIds s') = {0, 1} \<and>
      (\<exists>tickCommands. tickCommandsMap s' 1 = Some tickCommands \<and>
         tickCommands 0 \<noteq> None \<and> tickCommands 1 \<noteq> None)"
    by auto
  with w alive have "\<exists>sent s'. waitForTick 1 [[msg_tick1]] ?s1 = Some (sent, s') \<and>
      receiving s' \<and> set (sortedPlayerIds s') = {0, 1} \<and>
      (\<exists>tickCommands. tickCommandsMap s' 1 = Some tickCommands \<and>
         tickCommands 0 \<noteq> None \<and> tickCommands 1 \<noteq> None)"
    by blast
  moreover have "waitForTick 1 [[]] ?s1 = None"
    using two_players_next
    by (simp add: two_players_def isTickReady_def sendCommands_def Let_def
        getCommandsForPlayer_def set_add_def)
  ultimately show ?thesis by (simp add: two_players_def)
qed


text \<open>
  C5. Storing under a pair of a tick and a player is idempotent once a payload was accepted.
  A payload that is not empty, written where the pair has no list, becomes the list of the
  pair; where the pair has a list, a write of any payload leaves the whole map as it is;
  so the same payload written twice, or any other payload written after it, changes
  nothing. The same holds for a whole message: processed a second time by the receive task,
  it leaves the map as the first time left it.
\<close>

theorem first_write_wins:
  "(\<not> payload_is_empty c \<and> \<not> has_entry m t p \<longrightarrow>
      has_entry (addCommandsForPlayer t p c m) t p \<and>
      getCommandsForPlayer (addCommandsForPlayer t p c m) t p = payload_list c) \<and>
   (has_entry m t p \<longrightarrow> addCommandsForPlayer t p c' m = m) \<and>
   (\<not> payload_is_empty c \<longrightarrow>
      addCommandsForPlayer t p c (addCommandsForPlayer t p c m) = addCommandsForPlayer t p c m \<and>
      addCommandsForPlayer t p c' (addCommandsForPlayer t p c m) = addCommandsForPlayer t p c m) \<and>
   tickCommandsMap (receive (receive s msg) msg) = tickCommandsMap (receive s msg)"
  by (simp add: add_has_entry add_get_absent add_present add_idem receive_twice_map)

theorem first_write_wins_witness:
  "getCommandsForPlayer (addCommandsForPlayer 3 1 (Array [Noop 1 :: rat command]) Map.empty) 3 1 =
     [Noop 1] \<and>
   addCommandsForPlayer 3 1 (Array [Noop 1, Noop 1])
       (addCommandsForPlayer 3 1 (Array [Noop 1 :: rat command]) Map.empty) =
     addCommandsForPlayer 3 1 (Array [Noop 1]) Map.empty \<and>
   addCommandsForPlayer 3 1 (Single (Noop 7))
       (addCommandsForPlayer 3 1 (Array [Noop 1 :: rat command]) Map.empty) =
     addCommandsForPlayer 3 1 (Array [Noop 1]) Map.empty"
proof -
  let ?c = "Array [Noop 1 :: rat command]"
  have ne: "\<not> payload_is_empty ?c" by simp
  have absent: "\<not> has_entry (Map.empty :: rat tick_commands_map) 3 1"
    by (simp add: has_entry_def)
  from ne absent
    first_write_wins [of ?c Map.empty 3 1 "Array [Noop 1, Noop 1]" two_players msg_tick1]
    first_write_wins [of ?c Map.empty 3 1 "Single (Noop 7)" two_players msg_tick1]
  show ?thesis by simp
qed

text \<open>
  C9. No command list stored in the map is empty, in any state of the manager.
  \<^verbatim>\<open>addCommandsForPlayer\<close> returns the map it was given for an empty array; and a
  message in which every command list is empty or belongs to a tick before the current one
  (as in a retransmission for a tick that was pruned) leaves the map, and with it the
  readiness of every tick, as they were.
\<close>

theorem stored_lists_are_nonempty:
  "reachable (constructor pid others delay t0) s \<Longrightarrow>
   (\<forall>t tickCommands p cs.
      tickCommandsMap s t = Some tickCommands \<and> tickCommands p = Some cs \<longrightarrow> cs \<noteq> []) \<and>
   addCommandsForPlayer t p (Array []) (tickCommandsMap s) = tickCommandsMap s \<and>
   (list_all (\<lambda>e. snd e = [] \<or> fst e < tick s) (msg_commands msg) \<longrightarrow>
      tickCommandsMap (receive s msg) = tickCommandsMap s \<and>
      isTickReady (receive s msg) u = isTickReady s u)"
proof -
  assume r: "reachable (constructor pid others delay t0) s"
  then have "manager_inv s"
    by (rule reachable_inv) (rule constructor_inv)
  then have one: "\<forall>t tickCommands p cs.
      tickCommandsMap s t = Some tickCommands \<and> tickCommands p = Some cs \<longrightarrow> cs \<noteq> []"
    by (auto simp: manager_inv_def lists_nonempty_def)
  have three: "tickCommandsMap (receive s msg) = tickCommandsMap s \<and>
      isTickReady (receive s msg) u = isTickReady s u"
    if empty: "list_all (\<lambda>e. snd e = [] \<or> fst e < tick s) (msg_commands msg)"
  proof -
    from receive_cases [of msg s] obtain es a b r where
      rc: "receive s msg =
         s\<lparr>tickCommandsMap := store (msg_playerId msg) (tick s) es (tickCommandsMap s),
           acksToSend := a, pendingAcks := b, receiving := r\<rparr>"
      and sub: "set es \<subseteq> set (object_entries (msg_commands msg))"
      by blast
    from sub empty have "\<forall>e \<in> set es. snd e = [] \<or> fst e < tick s"
      by (auto simp: list_all_iff)
    then have "store (msg_playerId msg) (tick s) es (tickCommandsMap s) = tickCommandsMap s"
      by (rule store_empty_payloads)
    with rc have "tickCommandsMap (receive s msg) = tickCommandsMap s"
      and "sortedPlayerIds (receive s msg) = sortedPlayerIds s"
      by simp_all
    then show ?thesis by (simp add: isTickReady_def split: option.splits)
  qed
  from one three show ?thesis by (simp add: addCommandsForPlayer_def)
qed


theorem stored_lists_are_nonempty_witness:
  "tickCommandsMap (receive (snd (nextTick two_players)) msg_retransmit) =
     tickCommandsMap (snd (nextTick two_players)) \<and>
   \<not> isTickReady (receive (snd (nextTick two_players)) msg_retransmit) 1"
proof -
  let ?c = "constructor 0 [1] 1 0 :: rat command_manager"
  let ?s1 = "snd (nextTick ?c)"
  have r: "reachable ?c ?s1"
    by (intro reachable.next_tick reachable.start)
  have "tick ?s1 = 1"
    using two_players_next by (simp add: two_players_def)
  then have e: "list_all (\<lambda>e. snd e = [] \<or> fst e < tick ?s1) (msg_commands msg_retransmit)"
    by (simp add: msg_retransmit_def)
  have n: "\<not> isTickReady ?s1 1"
    using two_players_next by (simp add: two_players_def isTickReady_def)
  from e n stored_lists_are_nonempty [OF r, of 1 1 msg_retransmit 1]
  show ?thesis by (simp add: two_players_def)
qed




text \<open>
  \<^verbatim>\<open>getAllCommands(t)\<close> is the concatenation of the command lists of the players at
  tick \<open>t\<close>, a player without a list contributing nothing, in the order of
  \<^verbatim>\<open>_sortedPlayerIds\<close>. For ids below \<open>10^21\<close> that order is the one of their decimal
  strings; it is the ascending order of the ids when all of them are below 10. The result
  depends on the stored lists alone; and the messages of two different other players,
  processed in either order by a running receive task, give the same state of the manager,
  hence the same commands for every tick.
\<close>

lemma getAllCommands_in_string_order:
  "\<forall>p \<in> set (pid # others). p < 10 ^ 21 \<Longrightarrow>
   reachable (constructor pid others delay t0) s \<Longrightarrow>
   getAllCommands s t =
     concat (map (getCommandsForPlayer (tickCommandsMap s) t) (sortedPlayerIds s)) \<and>
   sortedPlayerIds s = sort_key js_to_string (pid # others) \<and>
   sorted (map js_to_string (sortedPlayerIds s)) \<and>
   set (sortedPlayerIds s) = insert pid (set others) \<and>
   ((\<forall>p \<in> set (pid # others). p < 10) \<longrightarrow> sortedPlayerIds s = sort (pid # others)) \<and>
   (receiving s \<and> msg_playerId m1 \<in> set others \<and> msg_playerId m2 \<in> set others \<and>
    msg_playerId m1 \<noteq> msg_playerId m2 \<longrightarrow>
      receive (receive s m1) m2 = receive (receive s m2) m1 \<and>
      getAllCommands (receive (receive s m1) m2) t =
        getAllCommands (receive (receive s m2) m1) t)"
proof -
  assume bound: "\<forall>p \<in> set (pid # others). p < 10 ^ 21"
    and r: "reachable (constructor pid others delay t0) s"
  from reachable_config [OF r] have
    ids: "sortedPlayerIds s = js_sort (pid # others)" and others: "otherPlayerIds s = others"
    by (simp_all add: constructor_def)
  from r have inv: "manager_inv s"
    by (rule reachable_inv) (rule constructor_inv)
  with others have wf: "acks_wf others (acksToSend s)" "acks_wf others (pendingAcks s)"
    by (simp_all add: manager_inv_def)
  have digits: "sortedPlayerIds s = sort (pid # others)" if "\<forall>p \<in> set (pid # others). p < 10"
    unfolding ids using that by (rule js_sort_digits)
  have comm: "receive (receive s m1) m2 = receive (receive s m2) m1"
    if "receiving s" "msg_playerId m1 \<in> set others" "msg_playerId m2 \<in> set others"
      "msg_playerId m1 \<noteq> msg_playerId m2"
  proof -
    from wf that(2,3) obtain a1 b1 a2 b2 where
      "acksToSend s (msg_playerId m1) = Some a1" "pendingAcks s (msg_playerId m1) = Some b1"
      "acksToSend s (msg_playerId m2) = Some a2" "pendingAcks s (msg_playerId m2) = Some b2"
      unfolding acks_wf_def by (metis domD)
    with that(1) show ?thesis using that(4) by (rule receive_commute)
  qed
  have "sortedPlayerIds s = sort_key js_to_string (pid # others)"
    by (simp only: ids js_sort_def)
  moreover have "sorted (map js_to_string (sortedPlayerIds s))"
    by (simp only: ids js_sort_def sorted_sort_key)
  moreover have "set (sortedPlayerIds s) = insert pid (set others)"
    by (simp only: ids set_js_sort list.set)
  moreover note getAllCommands_concat [of s t]
  ultimately show ?thesis
    using digits comm by (intro conjI impI) (assumption | simp)+
qed

lemma getAllCommands_in_string_order_example:
  "sortedPlayerIds (snd (nextTick three_players)) = [0, 1, 2] \<and>
   getAllCommands (receive (receive (snd (nextTick three_players)) msg_of_1) msg_of_2) 1 =
     [Noop 0, Noop 1, Move 2 2 \<lparr> x = 120, y = 80 \<rparr>] \<and>
   getAllCommands (receive (receive (snd (nextTick three_players)) msg_of_2) msg_of_1) 1 =
     [Noop 0, Noop 1, Move 2 2 \<lparr> x = 120, y = 80 \<rparr>]"
proof -
  let ?c = "constructor 0 [1, 2] 1 0 :: rat command_manager"
  let ?s = "snd (nextTick ?c)"
  have r: "reachable ?c ?s"
    by (intro reachable.next_tick reachable.start)
  have small: "\<forall>p \<in> set (0 # [1, 2 :: nat]). p < 10" by simp
  have bound: "\<forall>p \<in> set (0 # [1, 2 :: nat]). p < 10 ^ 21" by simp
  have senders: "receiving ?s \<and> msg_playerId msg_of_1 \<in> set [1, 2] \<and>
      msg_playerId msg_of_2 \<in> set [1, 2] \<and> msg_playerId msg_of_1 \<noteq> msg_playerId msg_of_2"
    using three_players_next by (simp add: three_players_def msg_of_1_def msg_of_2_def)
  from getAllCommands_in_string_order [OF bound r, of 1 msg_of_1 msg_of_2] small senders
  have "sortedPlayerIds ?s = sort (0 # [1, 2])"
    and "getAllCommands (receive (receive ?s msg_of_1) msg_of_2) 1 =
      getAllCommands (receive (receive ?s msg_of_2) msg_of_1) 1"
    by blast+
  with three_players_received show ?thesis
    by (simp add: three_players_def)
qed

text \<open>
  C1. The claim is that \<^verbatim>\<open>getAllCommands(t)\<close> concatenates the command lists of the
  players in ascending order of the player ids. The code means the same: the constructor
  sorts the ids (its comment: sort player ids to ensure deterministic execution of
  commands) and \<^verbatim>\<open>getAllCommands\<close> is documented to return the commands ordered by
  player id. But \<^verbatim>\<open>sort()\<close> is called without a comparison function, so the numbers are
  compared as strings. With the players 2 and 10, tick 0 has the commands of both, and
  \<^verbatim>\<open>getAllCommands(0)\<close> lists the command of player 10 before the command of player 2:
  their strings compare as \<open>''10'' < ''2''\<close>.
\<close>

theorem getAllCommands_not_ascending:
  "isTickReady ten_and_two 0 \<and>
   sortedPlayerIds ten_and_two = [10, 2] \<and>
   getAllCommands ten_and_two 0 = [Noop 10, Noop 2] \<and>
   concat (map (getCommandsForPlayer (tickCommandsMap ten_and_two) 0) (sort [2, 10])) =
     [Noop 2, Noop 10] \<and>
   getAllCommands ten_and_two 0 \<noteq>
     concat (map (getCommandsForPlayer (tickCommandsMap ten_and_two) 0) (sort [2, 10]))"
  by (simp add: ten_and_two_def constructor_def js_sort_2_10 initTickCommandsMap_def
      init_tick_commands_def isTickReady_def getAllCommands_def getCommandsForPlayer_def)


section \<open>Facts about units\<close>

lemma update_exact_snap:
  "target u = Some tg \<Longrightarrow> distance_to (position u) tg \<le> speed u \<Longrightarrow>
   snd (update exact_ops frame u) = u\<lparr>position := tg, target := None\<rparr>"
  by (simp add: update_def exact_ops_def distance_to_def Let_def)

lemma update_exact_move:
  "target u = Some tg \<Longrightarrow> speed u < distance_to (position u) tg \<Longrightarrow>
   snd (update exact_ops frame u) =
     u\<lparr>position := towards (position u) tg (speed u / distance_to (position u) tg)\<rparr>"
  by (simp add: update_def exact_ops_def distance_to_def towards_def Let_def)

lemma distance_to_towards:
  "r \<le> 1 \<Longrightarrow> distance_to (towards p q r) q = (1 - r) * distance_to p q"
proof -
  assume r: "r \<le> 1"
  let ?a = "x q - x p" and ?b = "y q - y p"
  have "distance_to (towards p q r) q =
      sqrt (((1 - r) * ?a) * ((1 - r) * ?a) + ((1 - r) * ?b) * ((1 - r) * ?b))"
    by (simp add: distance_to_def towards_def algebra_simps)
  also have "\<dots> = sqrt ((1 - r)\<^sup>2 * (?a * ?a + ?b * ?b))"
    by (simp add: power2_eq_square algebra_simps)
  also have "\<dots> = \<bar>1 - r\<bar> * sqrt (?a * ?a + ?b * ?b)"
    by (simp add: real_sqrt_mult)
  finally show ?thesis using r by (simp add: distance_to_def)
qed

lemma towards_towards:
  "r < 1 \<Longrightarrow> towards (towards p q r) q (c / (1 - r)) = towards p q (r + c)"
  by (simp add: towards_def field_simps)


lemma towards_zero: "towards p q 0 = p"
  by (simp add: towards_def)

lemma updates_snoc:
  "updates ops (fs @ [frame]) u = snd (update ops frame (updates ops fs u))"
  by (simp add: updates_def)

lemma less_nat_ceiling: "(k < nat \<lceil>r :: real\<rceil>) = (real k < r)"
  by (simp add: zless_nat_eq_int_zless less_ceiling_iff)

lemma updates_exact_before:
  assumes tg: "target u = Some tg" and S: "0 < speed u"
    and D: "0 < distance_to (position u) tg"
  shows "real (length fs) * speed u < distance_to (position u) tg \<Longrightarrow>
    updates exact_ops fs u =
      u\<lparr>position := towards (position u) tg
                       (real (length fs) * speed u / distance_to (position u) tg)\<rparr>"
proof (induction fs rule: rev_induct)
  case Nil
  show ?case by (simp add: updates_def towards_zero)
next
  case (snoc frame fs)
  let ?D = "distance_to (position u) tg" and ?S = "speed u"
  let ?k = "real (length fs)"
  let ?r = "?k * ?S / ?D"
  let ?uk = "u\<lparr>position := towards (position u) tg ?r\<rparr>"
  from snoc.prems have next_lt: "(?k + 1) * ?S < ?D" by (simp add: add.commute)
  with S have lt: "?k * ?S < ?D" by (simp add: algebra_simps)
  then have uk: "updates exact_ops fs u = ?uk" by (rule snoc.IH)
  from lt D have r1: "?r < 1" by simp
  then have "distance_to (position ?uk) tg = (1 - ?r) * ?D"
    by (simp add: distance_to_towards)
  also have "\<dots> = ?D - ?k * ?S"
    using D by (simp add: field_simps)
  finally have dk: "distance_to (position ?uk) tg = ?D - ?k * ?S" .
  with next_lt have "speed ?uk < distance_to (position ?uk) tg"
    by (simp add: algebra_simps)
  with tg have "snd (update exact_ops frame ?uk) =
      ?uk\<lparr>position := towards (position ?uk) tg (speed ?uk / distance_to (position ?uk) tg)\<rparr>"
    by (intro update_exact_move) simp_all
  also have "speed ?uk / distance_to (position ?uk) tg = (?S / ?D) / (1 - ?r)"
    using D r1 unfolding dk by (simp add: field_simps)
  also have "towards (position ?uk) tg ((?S / ?D) / (1 - ?r)) = towards (position u) tg (?r + ?S / ?D)"
    using towards_towards [OF r1, of "position u" tg "?S / ?D"] by simp
  also have "?r + ?S / ?D = real (length (fs @ [frame])) * ?S / ?D"
    by (simp add: algebra_simps add_divide_distrib)
  finally show ?case
    by (simp add: updates_snoc uk)
qed

lemma distance_from_towards:
  "distance_to p (towards p q r) = \<bar>r\<bar> * distance_to p q"
proof -
  let ?a = "x q - x p" and ?b = "y q - y p"
  have "distance_to p (towards p q r) = sqrt (r\<^sup>2 * (?a * ?a + ?b * ?b))"
    by (simp add: distance_to_def towards_def power2_eq_square algebra_simps)
  also have "\<dots> = \<bar>r\<bar> * sqrt (?a * ?a + ?b * ?b)"
    by (simp add: real_sqrt_mult)
  finally show ?thesis by (simp add: distance_to_def)
qed

lemma sqrt_25: "sqrt 25 = 5"
  using real_sqrt_abs [of 5] by simp

lemma sqrt_100: "sqrt 100 = 10"
  using real_sqrt_abs [of 10] by simp

lemma sqrt_2500: "sqrt 2500 = 50"
  using real_sqrt_abs [of 50] by simp


lemma skew_unit_step:
  "snd (update (decimal_js 20) no_click skew_unit) =
     skew_unit\<lparr>position := \<lparr> x = 44721359549995793928 / 100000000000000000000,
                              y = 89442719099991587857 / 100000000000000000000 \<rparr>\<rparr>"
  by code_simp

lemma far_unit_step: "snd (update (decimal_js 20) no_click far_unit) = far_unit"
  by code_simp

lemma moving_unit_far:
  "\<not> dec_lessThanOrEqualTo (decimal_js 20)
      (dec_sqrt (decimal_js 20)
        (dec_plus (decimal_js 20)
          (dec_mul (decimal_js 20) (dec_minus (decimal_js 20) 30 0) (dec_minus (decimal_js 20) 30 0))
          (dec_mul (decimal_js 20) (dec_minus (decimal_js 20) 40 0) (dec_minus (decimal_js 20) 40 0))))
      5"
  by code_simp

lemma moving_unit_x:
  "dec_plus (decimal_js 20) 0
     (dec_div (decimal_js 20) (dec_mul (decimal_js 20) 5 (dec_minus (decimal_js 20) 30 0))
       (dec_sqrt (decimal_js 20)
         (dec_plus (decimal_js 20)
           (dec_mul (decimal_js 20) (dec_minus (decimal_js 20) 30 0) (dec_minus (decimal_js 20) 30 0))
           (dec_mul (decimal_js 20) (dec_minus (decimal_js 20) 40 0) (dec_minus (decimal_js 20) 40 0))))) = 3"
  by code_simp

lemma moving_unit_y:
  "dec_plus (decimal_js 20) 0
     (dec_div (decimal_js 20) (dec_mul (decimal_js 20) 5 (dec_minus (decimal_js 20) 40 0))
       (dec_sqrt (decimal_js 20)
         (dec_plus (decimal_js 20)
           (dec_mul (decimal_js 20) (dec_minus (decimal_js 20) 30 0) (dec_minus (decimal_js 20) 30 0))
           (dec_mul (decimal_js 20) (dec_minus (decimal_js 20) 40 0) (dec_minus (decimal_js 20) 40 0))))) = 4"
  by code_simp

lemma arriving_unit_near:
  "dec_lessThanOrEqualTo (decimal_js 20)
      (dec_sqrt (decimal_js 20)
        (dec_plus (decimal_js 20)
          (dec_mul (decimal_js 20) (dec_minus (decimal_js 20) 30 27) (dec_minus (decimal_js 20) 30 27))
          (dec_mul (decimal_js 20) (dec_minus (decimal_js 20) 40 36) (dec_minus (decimal_js 20) 40 36))))
      5"
  by code_simp


text \<open>\<open>isqrt\<close> is the integer part of the square root.\<close>

lemma isqrt_between_floor:
  "0 \<le> lo \<Longrightarrow> lo < hi \<Longrightarrow> lo * lo \<le> n \<Longrightarrow> n < hi * hi \<Longrightarrow>
   isqrt_between n lo hi * isqrt_between n lo hi \<le> n \<and>
   n < (isqrt_between n lo hi + 1) * (isqrt_between n lo hi + 1)"
proof (induction n lo hi rule: isqrt_between.induct)
  case (1 n lo hi)
  show ?case
  proof (cases "hi \<le> lo + 1")
    case True
    then have "isqrt_between n lo hi = lo"
      by (simp add: isqrt_between.simps [of n lo hi])
    moreover from True "1.prems" have "hi = lo + 1" by simp
    ultimately show ?thesis using "1.prems" by simp
  next
    case False
    define mid where "mid = (lo + hi) div 2"
    from False "1.prems" have mid: "lo < mid" "mid < hi" "0 \<le> mid"
      by (simp_all add: mid_def)
    show ?thesis
    proof (cases "mid * mid \<le> n")
      case True
      with False have "isqrt_between n lo hi = isqrt_between n mid hi"
        by (simp add: isqrt_between.simps [of n lo hi] mid_def Let_def)
      with "1.IH"(1) [OF False mid_def True mid(3) mid(2) True "1.prems"(4)]
      show ?thesis by simp
    next
      case up: False
      with False have "isqrt_between n lo hi = isqrt_between n lo mid"
        by (simp add: isqrt_between.simps [of n lo hi] mid_def Let_def)
      moreover from up have "n < mid * mid" by simp
      ultimately show ?thesis
        using "1.IH"(2) [OF False mid_def up "1.prems"(1) mid(1) "1.prems"(3)] by simp
    qed
  qed
qed

lemma isqrt_floor: "0 \<le> n \<Longrightarrow> isqrt n * isqrt n \<le> n \<and> n < (isqrt n + 1) * (isqrt n + 1)"
proof -
  assume n: "0 \<le> n"
  then have "n < (n + 1) * (n + 1)"
    by (simp add: algebra_simps) (smt (verit) mult_nonneg_nonneg)
  with n show ?thesis
    unfolding isqrt_def by (intro isqrt_between_floor) simp_all
qed

section \<open>Properties of units\<close>

text \<open>
  C6. One update of a unit with a target, for any decimal operations. With \<open>dx\<close> and
  \<open>dy\<close> the differences of the coordinates of target and position, taken with
  \<^verbatim>\<open>minus\<close>, and the distance the \<^verbatim>\<open>sqrt\<close> of the \<^verbatim>\<open>plus\<close> of their squares: when
  the distance is at most the speed, the position becomes the target and the target is
  cleared; otherwise each coordinate grows by \<^verbatim>\<open>speed.mul(d).div(distance)\<close> and the
  target stays, nothing else of the unit changing in either case. In exact arithmetic the
  first case is that of a target at a distance of at most the speed, and the second case,
  with a speed that is not negative, moves the unit towards the target by the fraction
  \<open>speed / distance\<close> of the way: a move of length \<open>speed\<close> exactly, which leaves the unit
  at the distance less the speed from its target.
\<close>

theorem update_step:
  "target u = Some tg \<Longrightarrow>
   dx = dec_minus ops (x tg) (x (position u)) \<Longrightarrow>
   dy = dec_minus ops (y tg) (y (position u)) \<Longrightarrow>
   distance = dec_sqrt ops (dec_plus ops (dec_mul ops dx dx) (dec_mul ops dy dy)) \<Longrightarrow>
   (dec_lessThanOrEqualTo ops distance (speed u) \<longrightarrow>
      snd (update ops frame u) = u\<lparr>position := tg, target := None\<rparr>) \<and>
   (\<not> dec_lessThanOrEqualTo ops distance (speed u) \<longrightarrow>
      snd (update ops frame u) =
        u\<lparr>position :=
            \<lparr> x = dec_plus ops (x (position u)) (dec_div ops (dec_mul ops (speed u) dx) distance),
              y = dec_plus ops (y (position u)) (dec_div ops (dec_mul ops (speed u) dy) distance) \<rparr>\<rparr> \<and>
      target (snd (update ops frame u)) = Some tg) \<and>
   (target v = Some tq \<and> distance_to (position v) tq \<le> speed v \<longrightarrow>
      snd (update exact_ops frame' v) = v\<lparr>position := tq, target := None\<rparr>) \<and>
   (target v = Some tq \<and> 0 \<le> speed v \<and> speed v < distance_to (position v) tq \<longrightarrow>
      snd (update exact_ops frame' v) =
        v\<lparr>position := towards (position v) tq (speed v / distance_to (position v) tq)\<rparr> \<and>
      distance_to (position v) (position (snd (update exact_ops frame' v))) = speed v \<and>
      distance_to (position (snd (update exact_ops frame' v))) tq =
        distance_to (position v) tq - speed v)"
proof -
  assume tg: "target u = Some tg"
    and d: "dx = dec_minus ops (x tg) (x (position u))"
      "dy = dec_minus ops (y tg) (y (position u))"
      "distance = dec_sqrt ops (dec_plus ops (dec_mul ops dx dx) (dec_mul ops dy dy))"
  have snap: "snd (update ops frame u) = u\<lparr>position := tg, target := None\<rparr>"
    if "dec_lessThanOrEqualTo ops distance (speed u)"
    using that tg d by (simp add: update_def Let_def)
  have move: "snd (update ops frame u) =
        u\<lparr>position :=
            \<lparr> x = dec_plus ops (x (position u)) (dec_div ops (dec_mul ops (speed u) dx) distance),
              y = dec_plus ops (y (position u)) (dec_div ops (dec_mul ops (speed u) dy) distance) \<rparr>\<rparr>"
    if "\<not> dec_lessThanOrEqualTo ops distance (speed u)"
    using that tg d by (simp add: update_def Let_def)
  have exact_snap: "snd (update exact_ops frame' v) = v\<lparr>position := tq, target := None\<rparr>"
    if "target v = Some tq" "distance_to (position v) tq \<le> speed v"
    using that by (rule update_exact_snap)
  have exact: "snd (update exact_ops frame' v) =
        v\<lparr>position := towards (position v) tq (speed v / distance_to (position v) tq)\<rparr> \<and>
      distance_to (position v) (position (snd (update exact_ops frame' v))) = speed v \<and>
      distance_to (position (snd (update exact_ops frame' v))) tq =
        distance_to (position v) tq - speed v"
    if "target v = Some tq" "0 \<le> speed v" "speed v < distance_to (position v) tq"
  proof -
    let ?D = "distance_to (position v) tq"
    from that have pos: "0 < ?D" by simp
    with that(2) have len: "\<bar>speed v / ?D\<bar> * ?D = speed v"
      by simp
    from pos that(3) have le: "speed v / ?D \<le> 1"
      by simp
    from pos have rest: "(1 - speed v / ?D) * ?D = ?D - speed v"
      by (simp add: field_simps)
    from update_exact_move [OF that(1,3), of frame'] len rest
      distance_to_towards [OF le, of "position v" tq]
    show ?thesis
      by (simp add: distance_from_towards)
  qed
  from snap move tg have generic:
    "(dec_lessThanOrEqualTo ops distance (speed u) \<longrightarrow>
        snd (update ops frame u) = u\<lparr>position := tg, target := None\<rparr>) \<and>
     (\<not> dec_lessThanOrEqualTo ops distance (speed u) \<longrightarrow>
        snd (update ops frame u) =
          u\<lparr>position :=
              \<lparr> x = dec_plus ops (x (position u)) (dec_div ops (dec_mul ops (speed u) dx) distance),
                y = dec_plus ops (y (position u)) (dec_div ops (dec_mul ops (speed u) dy) distance) \<rparr>\<rparr> \<and>
        target (snd (update ops frame u)) = Some tg)"
    by auto
  from exact_snap exact have real:
    "(target v = Some tq \<and> distance_to (position v) tq \<le> speed v \<longrightarrow>
        snd (update exact_ops frame' v) = v\<lparr>position := tq, target := None\<rparr>) \<and>
     (target v = Some tq \<and> 0 \<le> speed v \<and> speed v < distance_to (position v) tq \<longrightarrow>
        snd (update exact_ops frame' v) =
          v\<lparr>position := towards (position v) tq (speed v / distance_to (position v) tq)\<rparr> \<and>
        distance_to (position v) (position (snd (update exact_ops frame' v))) = speed v \<and>
        distance_to (position (snd (update exact_ops frame' v))) tq =
          distance_to (position v) tq - speed v)"
    by blast
  from generic real show ?thesis by blast
qed

text \<open>
  A unit of speed 5 on its way from the origin to \<open>(30, 40)\<close>, at the distance 50, moves to
  \<open>(3, 4)\<close>; at \<open>(27, 36)\<close>, with the distance 5 left, it arrives. Both, in the arithmetic
  of 20 digits and in the exact one.
\<close>

theorem update_step_witness:
  "snd (update (decimal_js 20) no_click
       (unit_at 5 \<lparr> x = 0, y = 0 \<rparr> (Some \<lparr> x = 30, y = 40 \<rparr>))) =
     unit_at 5 \<lparr> x = 3, y = 4 \<rparr> (Some \<lparr> x = 30, y = 40 \<rparr>) \<and>
   snd (update (decimal_js 20) no_click
       (unit_at 5 \<lparr> x = 27, y = 36 \<rparr> (Some \<lparr> x = 30, y = 40 \<rparr>))) =
     unit_at 5 \<lparr> x = 30, y = 40 \<rparr> None \<and>
   snd (update exact_ops no_click
       (unit_at 5 \<lparr> x = 0, y = 0 \<rparr> (Some \<lparr> x = 30, y = 40 \<rparr>))) =
     unit_at 5 \<lparr> x = 3, y = 4 \<rparr> (Some \<lparr> x = 30, y = 40 \<rparr>) \<and>
   distance_to \<lparr> x = 0, y = 0 \<rparr>
     (position (snd (update exact_ops no_click
       (unit_at 5 \<lparr> x = 0, y = 0 \<rparr> (Some \<lparr> x = 30, y = 40 \<rparr>))))) = 5 \<and>
   distance_to
     (position (snd (update exact_ops no_click
       (unit_at 5 \<lparr> x = 0, y = 0 \<rparr> (Some \<lparr> x = 30, y = 40 \<rparr>))))) \<lparr> x = 30, y = 40 \<rparr> = 45 \<and>
   snd (update exact_ops no_click
       (unit_at 5 \<lparr> x = 27, y = 36 \<rparr> (Some \<lparr> x = 30, y = 40 \<rparr>))) =
     unit_at 5 \<lparr> x = 30, y = 40 \<rparr> None"
proof -
  let ?ops = "decimal_js 20"
  let ?tg = "\<lparr> x = 30, y = 40 \<rparr> :: rat point2d"
  let ?u1 = "unit_at 5 \<lparr> x = 0, y = 0 \<rparr> (Some ?tg) :: rat game_unit"
  let ?u2 = "unit_at 5 \<lparr> x = 27, y = 36 \<rparr> (Some ?tg) :: rat game_unit"
  let ?tq = "\<lparr> x = 30, y = 40 \<rparr> :: real point2d"
  let ?v = "unit_at 5 \<lparr> x = 0, y = 0 \<rparr> (Some ?tq) :: real game_unit"
  let ?w = "unit_at 5 \<lparr> x = 27, y = 36 \<rparr> (Some ?tq) :: real game_unit"
  have tg1: "target ?u1 = Some ?tg" and tg2: "target ?u2 = Some ?tg"
    by (simp_all add: unit_at_def)
  have v: "target ?v = Some ?tq \<and> 0 \<le> speed ?v \<and> speed ?v < distance_to (position ?v) ?tq"
    and D: "distance_to (position ?v) ?tq = 50"
    by (simp_all add: unit_at_def distance_to_def sqrt_2500)
  have w: "target ?w = Some ?tq \<and> distance_to (position ?w) ?tq \<le> speed ?w"
    by (simp add: unit_at_def distance_to_def sqrt_25)
  have far: "\<not> dec_lessThanOrEqualTo ?ops
      (dec_sqrt ?ops (dec_plus ?ops
        (dec_mul ?ops (dec_minus ?ops (x ?tg) (x (position ?u1))) (dec_minus ?ops (x ?tg) (x (position ?u1))))
        (dec_mul ?ops (dec_minus ?ops (y ?tg) (y (position ?u1))) (dec_minus ?ops (y ?tg) (y (position ?u1))))))
      (speed ?u1)"
    using moving_unit_far by (simp add: unit_at_def)
  have near: "dec_lessThanOrEqualTo ?ops
      (dec_sqrt ?ops (dec_plus ?ops
        (dec_mul ?ops (dec_minus ?ops (x ?tg) (x (position ?u2))) (dec_minus ?ops (x ?tg) (x (position ?u2))))
        (dec_mul ?ops (dec_minus ?ops (y ?tg) (y (position ?u2))) (dec_minus ?ops (y ?tg) (y (position ?u2))))))
      (speed ?u2)"
    using arriving_unit_near by (simp add: unit_at_def)
  from update_step [OF tg1 refl refl refl, of ?ops no_click ?v ?tq no_click] far v
  have "snd (update ?ops no_click ?u1) =
      ?u1\<lparr>position :=
        \<lparr> x = dec_plus ?ops (x (position ?u1))
              (dec_div ?ops (dec_mul ?ops (speed ?u1) (dec_minus ?ops (x ?tg) (x (position ?u1))))
                (dec_sqrt ?ops (dec_plus ?ops
        (dec_mul ?ops (dec_minus ?ops (x ?tg) (x (position ?u1))) (dec_minus ?ops (x ?tg) (x (position ?u1))))
        (dec_mul ?ops (dec_minus ?ops (y ?tg) (y (position ?u1))) (dec_minus ?ops (y ?tg) (y (position ?u1))))))),
          y = dec_plus ?ops (y (position ?u1))
              (dec_div ?ops (dec_mul ?ops (speed ?u1) (dec_minus ?ops (y ?tg) (y (position ?u1))))
                (dec_sqrt ?ops (dec_plus ?ops
        (dec_mul ?ops (dec_minus ?ops (x ?tg) (x (position ?u1))) (dec_minus ?ops (x ?tg) (x (position ?u1))))
        (dec_mul ?ops (dec_minus ?ops (y ?tg) (y (position ?u1))) (dec_minus ?ops (y ?tg) (y (position ?u1))))))) \<rparr>\<rparr>"
    and "snd (update exact_ops no_click ?v) =
        ?v\<lparr>position := towards (position ?v) ?tq (speed ?v / distance_to (position ?v) ?tq)\<rparr>"
    and "distance_to (position ?v) (position (snd (update exact_ops no_click ?v))) = speed ?v"
    and "distance_to (position (snd (update exact_ops no_click ?v))) ?tq =
        distance_to (position ?v) ?tq - speed ?v"
    by blast+
  then have one: "snd (update ?ops no_click ?u1) = unit_at 5 \<lparr> x = 3, y = 4 \<rparr> (Some ?tg)"
    and three: "snd (update exact_ops no_click ?v) = unit_at 5 \<lparr> x = 3, y = 4 \<rparr> (Some ?tq)"
    and four: "distance_to \<lparr> x = 0, y = 0 \<rparr> (position (snd (update exact_ops no_click ?v))) = 5"
    and five: "distance_to (position (snd (update exact_ops no_click ?v))) ?tq = 45"
    unfolding D using moving_unit_x moving_unit_y
    by (simp_all add: unit_at_def towards_def)
  from update_step [OF tg2 refl refl refl, of ?ops no_click ?w ?tq no_click] near w
  have "snd (update ?ops no_click ?u2) = ?u2\<lparr>position := ?tg, target := None\<rparr>"
    and "snd (update exact_ops no_click ?w) = ?w\<lparr>position := ?tq, target := None\<rparr>"
    by blast+
  then have two: "snd (update ?ops no_click ?u2) = unit_at 5 \<lparr> x = 30, y = 40 \<rparr> None"
    and six: "snd (update exact_ops no_click ?w) = unit_at 5 \<lparr> x = 30, y = 40 \<rparr> None"
    by (simp_all add: unit_at_def)
  from one two three four five six show ?thesis by simp
qed

text \<open>
  In the arithmetic the code runs, the second case is not a move of length \<open>speed\<close>. A
  unit of speed 1 at the origin with the target \<open>(1, 2)\<close>: the distance is the square root
  of 5 to 20 digits, \<open>2.2360679774997896964\<close>, and the quotients are rounded to 20 digits
  again; the unit moves to \<open>(0.44721359549995793928, 0.89442719099991587857)\<close>, and the
  square of the length of that move is not 1.
\<close>

theorem rounded_step_is_not_speed:
  "snd (update (decimal_js 20) no_click skew_unit) =
     skew_unit\<lparr>position := \<lparr> x = 44721359549995793928 / 100000000000000000000,
                              y = 89442719099991587857 / 100000000000000000000 \<rparr>\<rparr> \<and>
   moved_squared skew_unit (snd (update (decimal_js 20) no_click skew_unit)) \<noteq>
     speed skew_unit * speed skew_unit"
  using skew_unit_step by (simp add: moved_squared_def skew_unit_def unit_at_def)


text \<open>
  C3. In exact arithmetic a unit with a positive speed \<open>S\<close> and a target at the distance
  \<open>D > 0\<close> is at its target, with the target cleared, after \<open>\<lceil>D / S\<rceil>\<close> updates; after
  any smaller number \<open>k\<close> of updates it still has its target and stands at the fraction
  \<open>k S / D < 1\<close> of the way, at the distance \<open>D - k S\<close> from the target, so it has
  neither arrived nor passed it.
\<close>

theorem exact_unit_reaches_target:
  "target u = Some tg \<Longrightarrow> 0 < speed u \<Longrightarrow> 0 < distance_to (position u) tg \<Longrightarrow>
   (length fs = nat \<lceil>distance_to (position u) tg / speed u\<rceil> \<longrightarrow>
      position (updates exact_ops fs u) = tg \<and> target (updates exact_ops fs u) = None) \<and>
   (length fs < nat \<lceil>distance_to (position u) tg / speed u\<rceil> \<longrightarrow>
      target (updates exact_ops fs u) = Some tg \<and>
      position (updates exact_ops fs u) =
        towards (position u) tg (real (length fs) * speed u / distance_to (position u) tg) \<and>
      real (length fs) * speed u / distance_to (position u) tg < 1 \<and>
      distance_to (position (updates exact_ops fs u)) tg =
        distance_to (position u) tg - real (length fs) * speed u)"
proof -
  assume tg: "target u = Some tg" and S: "0 < speed u"
    and D: "0 < distance_to (position u) tg"
  let ?D = "distance_to (position u) tg" and ?S = "speed u"
  let ?n = "nat \<lceil>?D / ?S\<rceil>"
  have before: "updates exact_ops gs u =
        u\<lparr>position := towards (position u) tg (real (length gs) * ?S / ?D)\<rparr> \<and>
      real (length gs) * ?S / ?D < 1 \<and>
      distance_to (towards (position u) tg (real (length gs) * ?S / ?D)) tg =
        ?D - real (length gs) * ?S"
    if "length gs < ?n" for gs :: "real frame list"
  proof -
    from that have "real (length gs) < ?D / ?S"
      by (simp only: less_nat_ceiling)
    with S have lt: "real (length gs) * ?S < ?D"
      by (simp add: field_simps)
    with D have r1: "real (length gs) * ?S / ?D < 1" by simp
    then have "distance_to (towards (position u) tg (real (length gs) * ?S / ?D)) tg =
        (1 - real (length gs) * ?S / ?D) * ?D"
      by (simp add: distance_to_towards)
    also have "\<dots> = ?D - real (length gs) * ?S"
      using D by (simp add: field_simps)
    finally show ?thesis
      using updates_exact_before [OF tg S D lt] r1 by simp
  qed
  have arrive: "position (updates exact_ops fs u) = tg \<and> target (updates exact_ops fs u) = None"
    if n: "length fs = ?n"
  proof -
    from S D have "0 < ?D / ?S" by simp
    then have "0 < ?n" by simp
    with n obtain gs frame where fs: "fs = gs @ [frame]"
      by (cases fs rule: rev_cases) auto
    with n have "length gs < ?n" by simp
    from before [OF this] have
      gs: "updates exact_ops gs u =
          u\<lparr>position := towards (position u) tg (real (length gs) * ?S / ?D)\<rparr>"
      and dk: "distance_to (towards (position u) tg (real (length gs) * ?S / ?D)) tg =
          ?D - real (length gs) * ?S"
      by simp_all
    have "?D / ?S \<le> real_of_int \<lceil>?D / ?S\<rceil>" by (rule le_of_int_ceiling)
    also have "real_of_int \<lceil>?D / ?S\<rceil> = real ?n"
      using \<open>0 < ?D / ?S\<close> by simp
    also have "real ?n = real (length gs) + 1"
      using n fs by simp
    finally have "?D \<le> (real (length gs) + 1) * ?S"
      using S by (simp add: field_simps)
    then have "?D - real (length gs) * ?S \<le> ?S"
      by (simp add: algebra_simps)
    with dk tg have "snd (update exact_ops frame (updates exact_ops gs u)) =
        (updates exact_ops gs u)\<lparr>position := tg, target := None\<rparr>"
      unfolding gs by (intro update_exact_snap) simp_all
    then show ?thesis
      by (simp add: fs updates_snoc)
  qed
  from before [of fs] arrive tg show ?thesis
    by auto
qed



theorem exact_unit_reaches_target_witness:
  "position (updates exact_ops [no_click, no_click]
       (unit_at 5 \<lparr> x = 0, y = 0 \<rparr> (Some \<lparr> x = 6, y = 8 \<rparr>))) = \<lparr> x = 6, y = 8 \<rparr> \<and>
   target (updates exact_ops [no_click, no_click]
       (unit_at 5 \<lparr> x = 0, y = 0 \<rparr> (Some \<lparr> x = 6, y = 8 \<rparr>))) = None \<and>
   target (updates exact_ops [no_click]
       (unit_at 5 \<lparr> x = 0, y = 0 \<rparr> (Some \<lparr> x = 6, y = 8 \<rparr>))) = Some \<lparr> x = 6, y = 8 \<rparr> \<and>
   position (updates exact_ops [no_click]
       (unit_at 5 \<lparr> x = 0, y = 0 \<rparr> (Some \<lparr> x = 6, y = 8 \<rparr>))) = \<lparr> x = 3, y = 4 \<rparr>"
proof -
  let ?tg = "\<lparr> x = 6, y = 8 \<rparr> :: real point2d"
  let ?u = "unit_at 5 \<lparr> x = 0, y = 0 \<rparr> (Some ?tg) :: real game_unit"
  have tg: "target ?u = Some ?tg" and S: "0 < speed ?u" "speed ?u = 5"
    by (simp_all add: unit_at_def)
  have D: "distance_to (position ?u) ?tg = 10"
    by (simp add: unit_at_def distance_to_def sqrt_100)
  then have pos: "0 < distance_to (position ?u) ?tg" by simp
  have n: "nat \<lceil>distance_to (position ?u) ?tg / speed ?u\<rceil> = 2"
    by (simp add: D S(2))
  have two: "length [no_click, no_click :: real frame] =
      nat \<lceil>distance_to (position ?u) ?tg / speed ?u\<rceil>"
    and one: "length [no_click :: real frame] <
      nat \<lceil>distance_to (position ?u) ?tg / speed ?u\<rceil>"
    by (simp_all add: n)
  from exact_unit_reaches_target [OF tg S(1) pos, of "[no_click, no_click]"] two
  have "position (updates exact_ops [no_click, no_click] ?u) = ?tg \<and>
      target (updates exact_ops [no_click, no_click] ?u) = None"
    by blast
  moreover from exact_unit_reaches_target [OF tg S(1) pos, of "[no_click]"] one
  have "target (updates exact_ops [no_click] ?u) = Some ?tg \<and>
      position (updates exact_ops [no_click] ?u) =
        towards (position ?u) ?tg (real (length [no_click :: real frame]) * speed ?u /
          distance_to (position ?u) ?tg)"
    by blast
  moreover have "towards (position ?u) ?tg (real (length [no_click :: real frame]) * speed ?u /
          distance_to (position ?u) ?tg) = \<lparr> x = 3, y = 4 \<rparr>"
    unfolding D S(2) by (simp add: towards_def unit_at_def)
  ultimately show ?thesis by simp
qed
text \<open>
  The claim is about every unit, and \<^verbatim>\<open>Decimal\<close> rounds to 20 significant digits. A
  unit at \<open>(10^20, 0)\<close> with the target \<open>(10^20 + 10, 0)\<close> and the speed 4 has \<open>D = 10\<close>
  and \<open>\<lceil>D / S\<rceil> = 3\<close>. Its step is \<open>4 * 10 / 10 = 4\<close>, and \<open>10^20 + 4\<close> has 21
  digits: it is rounded to \<open>10^20\<close>. Each update leaves the unit where it was, and after
  three updates it is not at its target.
\<close>

theorem rounding_unit_never_arrives:
  "nat \<lceil>distance_to \<lparr> x = 100000000000000000000, y = 0 \<rparr>
                       \<lparr> x = 100000000000000000010, y = 0 \<rparr> / 4\<rceil> = 3 \<and>
   speed far_unit = 4 \<and>
   position far_unit = \<lparr> x = 100000000000000000000, y = 0 \<rparr> \<and>
   target far_unit = Some \<lparr> x = 100000000000000000010, y = 0 \<rparr> \<and>
   position (updates (decimal_js 20) [no_click, no_click, no_click] far_unit) =
     \<lparr> x = 100000000000000000000, y = 0 \<rparr> \<and>
   target (updates (decimal_js 20) [no_click, no_click, no_click] far_unit) =
     Some \<lparr> x = 100000000000000000010, y = 0 \<rparr>"
proof -
  have "distance_to \<lparr> x = 100000000000000000000, y = 0 \<rparr>
      \<lparr> x = 100000000000000000010, y = 0 \<rparr> = 10"
    by (simp add: distance_to_def sqrt_100)
  then have "nat \<lceil>distance_to \<lparr> x = 100000000000000000000, y = 0 \<rparr>
      \<lparr> x = 100000000000000000010, y = 0 \<rparr> / 4\<rceil> = nat \<lceil>10 / 4 :: real\<rceil>"
    by simp
  also have "\<dots> = 3"
    by (simp add: ceiling_eq_iff)
  finally have steps: "nat \<lceil>distance_to \<lparr> x = 100000000000000000000, y = 0 \<rparr>
      \<lparr> x = 100000000000000000010, y = 0 \<rparr> / 4\<rceil> = 3" .
  have "updates (decimal_js 20) [no_click, no_click, no_click] far_unit = far_unit"
    by (simp add: updates_def far_unit_step)
  with steps show ?thesis
    by (simp add: far_unit_def)
qed


end
